theory Spec2Isabelle
  imports Main "HOL-Library.Char_ord" "HOL-Library.Multiset"
begin

chapter \<open>The goc front end: literal lexer, tokenizer and preprocessor\<close>

text \<open>
  A shallow embedding of three Go files: \<^verbatim>\<open>internal/literal/ppnumber.go\<close> (the pp-number
  lexer), \<^verbatim>\<open>internal/tokenize/tokenize.go\<close> (the tokenizer) and the \<^verbatim>\<open>preprocess\<close>
  package's reader and preprocessor. Byte sources are lists of \<^typ>\<open>char\<close> (8-bit bytes)
  holding the bytes not yet consumed: \<^verbatim>\<open>Peek(n)\<close> is \<^term>\<open>take n src\<close>, \<^verbatim>\<open>Discard(n)\<close> is
  \<^term>\<open>drop n src\<close>. The sources are in memory, so the only read error is end of input.
  A Go function returning \<^verbatim>\<open>(value, error)\<close> returns a sum, \<^term>\<open>Inl\<close> the error.
\<close>

section \<open>Byte classes\<close>

text \<open>\<^verbatim>\<open>isNondigit\<close> as in ppnumber.go; \<^verbatim>\<open>isDigit\<close> is used there but declared in a file
  that is not part of the sources: it is the range \<^verbatim>\<open>'0'..'9'\<close>.\<close>

definition isNondigit :: "char \<Rightarrow> bool" where
  "isNondigit c \<longleftrightarrow>
     (if CHR ''A'' \<le> c \<and> c \<le> CHR ''Z'' then True
      else if CHR ''a'' \<le> c \<and> c \<le> CHR ''z'' then True
      else if c = CHR ''_'' then True
      else False)"

definition isDigit :: "char \<Rightarrow> bool" where
  "isDigit c \<longleftrightarrow> CHR ''0'' \<le> c \<and> c \<le> CHR ''9''"

section \<open>literal.ReadPPNumber\<close>

type_synonym Source = "char list"

datatype literal_error =
    UnexpectedEOF                 \<comment> \<open>\<^verbatim>\<open>ioutil.ShouldReadByte\<close> at end of input\<close>
  | ExpectedDigitOrDot char       \<comment> \<open>\<^verbatim>\<open>literal: expected digit or . but %q\<close>\<close>

text \<open>The \<^verbatim>\<open>for\<close> loop of \<^verbatim>\<open>ReadPPNumber\<close>: \<open>r\<close> is the spelling so far, the list is what
  \<^verbatim>\<open>src\<close> still holds. An empty \<^verbatim>\<open>Peek(1)\<close> breaks; a byte that is no digit, dot or
  nondigit breaks and stays in the source; after \<^verbatim>\<open>e E p P\<close> a second \<^verbatim>\<open>Peek(1)\<close> takes
  a sign, if there is one.\<close>

fun ppnumber_loop :: "char list \<Rightarrow> Source \<Rightarrow> char list \<times> Source" where
  "ppnumber_loop r [] = (r, [])"
| "ppnumber_loop r (b # src) =
     (if \<not> isDigit b \<and> b \<noteq> CHR ''.'' \<and> \<not> isNondigit b then (r, b # src)
      else if b \<noteq> CHR ''e'' \<and> b \<noteq> CHR ''E'' \<and> b \<noteq> CHR ''p'' \<and> b \<noteq> CHR ''P''
        then ppnumber_loop (r @ [b]) src
      else (case src of
              [] \<Rightarrow> (r @ [b], [])
            | b2 # src2 \<Rightarrow>
                if b2 = CHR ''+'' \<or> b2 = CHR ''-'' then ppnumber_loop (r @ [b, b2]) src2
                else ppnumber_loop (r @ [b]) src))"

text \<open>\<^verbatim>\<open>ReadPPNumber\<close> returns the spelling and leaves the rest in the source; the model
  returns both. \<^verbatim>\<open>ioutil.ShouldReadByte\<close> (not in the sources) reads one byte and fails at
  end of input.\<close>

definition ReadPPNumber :: "Source \<Rightarrow> literal_error + (string \<times> Source)" where
  "ReadPPNumber src =
     (case src of
        [] \<Rightarrow> Inl UnexpectedEOF
      | b # rest \<Rightarrow>
          if \<not> isDigit b \<and> b \<noteq> CHR ''.'' then Inl (ExpectedDigitOrDot b)
          else Inr (ppnumber_loop [b] rest))"

text \<open>The continuation of a pp-number in the words of the specification, for comparison
  with the loop: after the byte \<open>prev\<close> the next byte belongs to the number when it is a
  digit, a dot or a nondigit, or when it is a sign and \<open>prev\<close> is one of \<^verbatim>\<open>e E p P\<close>.\<close>

fun spec_ppnumber_tail :: "char \<Rightarrow> char list \<Rightarrow> char list" where
  "spec_ppnumber_tail prev [] = []"
| "spec_ppnumber_tail prev (c # cs) =
     (if isDigit c \<or> c = CHR ''.'' \<or> isNondigit c
         \<or> ((prev = CHR ''e'' \<or> prev = CHR ''E'' \<or> prev = CHR ''p'' \<or> prev = CHR ''P'')
             \<and> (c = CHR ''+'' \<or> c = CHR ''-''))
      then c # spec_ppnumber_tail c cs
      else [])"

lemma isNondigit_sign: "\<not> isNondigit (CHR ''+'')" "\<not> isNondigit (CHR ''-'')"
  by (simp_all add: isNondigit_def)

lemma isDigit_sign: "\<not> isDigit (CHR ''+'')" "\<not> isDigit (CHR ''-'')"
  by (simp_all add: isDigit_def)

lemma ppnumber_loop_spec:
  "ppnumber_loop r src =
     (r @ spec_ppnumber_tail prev src, drop (length (spec_ppnumber_tail prev src)) src)"
  if "(prev = CHR ''e'' \<or> prev = CHR ''E'' \<or> prev = CHR ''p'' \<or> prev = CHR ''P'')
        \<Longrightarrow> (case src of [] \<Rightarrow> True | c # _ \<Rightarrow> c \<noteq> CHR ''+'' \<and> c \<noteq> CHR ''-'')"
  using that
proof (induction r src arbitrary: prev rule: ppnumber_loop.induct)
  case (1 r)
  show ?case by simp
next
  case (2 r b src)
  show ?case
  proof (cases "\<not> isDigit b \<and> b \<noteq> CHR ''.'' \<and> \<not> isNondigit b")
    case True
    with "2.prems" show ?thesis by auto
  next
    case cont: False
    show ?thesis
    proof (cases "b \<noteq> CHR ''e'' \<and> b \<noteq> CHR ''E'' \<and> b \<noteq> CHR ''p'' \<and> b \<noteq> CHR ''P''")
      case True
      with cont "2.IH"(1)[of b] show ?thesis by auto
    next
      case expo: False
      show ?thesis
      proof (cases src)
        case Nil
        with cont expo show ?thesis by auto
      next
        case (Cons b2 src2)
        show ?thesis
        proof (cases "b2 = CHR ''+'' \<or> b2 = CHR ''-''")
          case True
          have "ppnumber_loop (r @ [b, b2]) src2 =
                  ((r @ [b, b2]) @ spec_ppnumber_tail b2 src2,
                   drop (length (spec_ppnumber_tail b2 src2)) src2)"
            using "2.IH"(2)[OF cont expo Cons True, of b2] True by auto
          with cont expo Cons True show ?thesis by auto
        next
          case False
          have "ppnumber_loop (r @ [b]) src =
                  ((r @ [b]) @ spec_ppnumber_tail b src,
                   drop (length (spec_ppnumber_tail b src)) src)"
            using "2.IH"(3)[OF cont expo Cons False, of b] False Cons by auto
          with cont expo Cons False show ?thesis by auto
        qed
      qed
    qed
  qed
qed

text \<open>Claim C7, as the code has it. \<^verbatim>\<open>ReadPPNumber\<close> fails at end of input and on a first
  byte that is neither a digit nor a dot; otherwise it returns the first byte followed by
  the continuation of the specification (digits, dots and nondigits, and a sign exactly
  after \<^verbatim>\<open>e E p P\<close>), and the source keeps exactly the bytes after that spelling. A first
  byte \<^verbatim>\<open>.\<close> is accepted whatever follows it.\<close>

theorem ReadPPNumber_lexes_pp_number:
  "ReadPPNumber src =
     (case src of
        [] \<Rightarrow> Inl UnexpectedEOF
      | b # rest \<Rightarrow>
          if isDigit b \<or> b = CHR ''.''
          then Inr (b # spec_ppnumber_tail b rest,
                    drop (length (spec_ppnumber_tail b rest)) rest)
          else Inl (ExpectedDigitOrDot b))"
proof (cases src)
  case Nil
  then show ?thesis by (simp add: ReadPPNumber_def)
next
  case (Cons b rest)
  show ?thesis
  proof (cases "isDigit b \<or> b = CHR ''.''")
    case True
    then have noexp: "\<not> (b = CHR ''e'' \<or> b = CHR ''E'' \<or> b = CHR ''p'' \<or> b = CHR ''P'')"
      by (auto simp: isDigit_def)
    have "ppnumber_loop [b] rest =
            ([b] @ spec_ppnumber_tail b rest, drop (length (spec_ppnumber_tail b rest)) rest)"
      by (rule ppnumber_loop_spec) (use noexp in blast)
    with Cons True show ?thesis by (auto simp: ReadPPNumber_def)
  next
    case False
    with Cons show ?thesis by (simp add: ReadPPNumber_def)
  qed
qed

text \<open>Claim C7 as stated fails: a dot that no digit follows is not rejected. On the two
  bytes \<^verbatim>\<open>.x\<close> the lexer returns the spelling \<^verbatim>\<open>.x\<close>.\<close>

theorem ReadPPNumber_dot_without_digit:
  "ReadPPNumber [CHR ''.'', CHR ''x''] = Inr ([CHR ''.'', CHR ''x''], [])"
  by (simp add: ReadPPNumber_def isDigit_def isNondigit_def)


section \<open>The tokenizer (internal/tokenize/tokenize.go)\<close>

subsection \<open>Tokens, errors and the sub-lexers\<close>

text \<open>\<^verbatim>\<open>token.Type\<close>: a byte converted with \<^verbatim>\<open>token.Type(b)\<close>, or one of the named
  constants. The declaration of the type is not part of the sources; the model takes the
  named constants to differ from each other and from every byte. \<open>Keyword\<close> stands for
  the types \<^verbatim>\<open>token.KeywordToType\<close> returns.\<close>

datatype TokenType =
    Byte char
  | Inc | AddEq | Dec | SubEq | Arrow | MulEq | DivEq | ModEq | Eq
  | ShlEq | Shl | ShrEq | Shr | AndAnd | AndEq | OrOr | OrEq | Ne | XorEq
  | NumberLiteral | StringLiteral | HeaderName | DotDotDot | HashHash | Ident
  | Keyword string

text \<open>\<^verbatim>\<open>token.Token\<close>. \<open>'n\<close> is the type of numeric values (\<^verbatim>\<open>interface{}\<close> in Go).\<close>

record 'n token =
  Type :: TokenType
  NumberValue :: "'n option"
  StringValue :: string
  Name :: string
  Adjacent :: bool

text \<open>\<^verbatim>\<open>&token.Token{Type: ty}\<close>: every other field has its zero value.\<close>

definition mk_token :: "TokenType \<Rightarrow> 'n token" where
  "mk_token ty = \<lparr>Type = ty, NumberValue = None, StringValue = [], Name = [], Adjacent = False\<rparr>"

datatype tokenize_error =
    io_EOF                        \<comment> \<open>\<^verbatim>\<open>io.EOF\<close>\<close>
  | UnclosedBlockComment          \<comment> \<open>\<^verbatim>\<open>tokenizer: unclosed block comment\<close>\<close>
  | InvalidToken char             \<comment> \<open>\<^verbatim>\<open>tokenizer: invalid token: %s\<close>\<close>
  | LexError string               \<comment> \<open>any other error of a sub-lexer\<close>

text \<open>The sub-lexers of package \<^verbatim>\<open>lex\<close>, \<^verbatim>\<open>ctype.Int\<close> and \<^verbatim>\<open>token.KeywordToType\<close> are
  not part of the sources. The tokenizer takes them as parameters: a lexer gets the
  source and returns an error, or its value and the source it leaves.\<close>

record 'n lex =
  ReadHeaderName :: "Source \<Rightarrow> tokenize_error + (string \<times> Source)"
  ReadChar :: "Source \<Rightarrow> tokenize_error + (int \<times> Source)"
  ctype_Int :: "int \<Rightarrow> 'n"
  ReadString :: "Source \<Rightarrow> tokenize_error + (string \<times> Source)"
  ReadNumber :: "Source \<Rightarrow> tokenize_error + ('n \<times> Source)"
  ReadIdentifier :: "Source \<Rightarrow> tokenize_error + (string \<times> Source)"
  IsNondigit :: "char \<Rightarrow> bool"
  KeywordToType :: "string \<Rightarrow> TokenType option"

subsection \<open>The tokenizer state\<close>

text \<open>\<^verbatim>\<open>type tokenizer struct\<close>. The field \<^verbatim>\<open>src\<close> is never read (every method gets the
  reader as an argument) and is left out.\<close>

record tokenizer =
  ppstate :: int
  isSpace :: bool
  wasSpace :: bool

text \<open>\<^verbatim>\<open>&tokenizer{...}\<close> as \<^verbatim>\<open>Tokenize\<close> creates it: zero values.\<close>

definition tokenizer0 :: tokenizer where
  "tokenizer0 = \<lparr>ppstate = 0, isSpace = False, wasSpace = False\<rparr>"

definition headerNameExpected :: "tokenizer \<Rightarrow> bool" where
  "headerNameExpected t \<longleftrightarrow> ppstate t = 2"

abbreviation (input) newline :: char where "newline \<equiv> CHR 0x0A"
abbreviation (input) tab :: char where "tab \<equiv> CHR 0x09"
abbreviation (input) vtab :: char where "vtab \<equiv> CHR 0x0B"
abbreviation (input) formfeed :: char where "formfeed \<equiv> CHR 0x0C"
abbreviation (input) creturn :: char where "creturn \<equiv> CHR 0x0D"
abbreviation (input) quote :: char where "quote \<equiv> CHR 0x27"
abbreviation (input) dquote :: char where "dquote \<equiv> CHR 0x22"
abbreviation (input) backslash :: char where "backslash \<equiv> CHR 0x5C"

subsection \<open>Comments\<close>

text \<open>The loop of the line comment: \<^verbatim>\<open>ReadByte\<close> until a new-line byte (which it
  consumes) or the end of input.\<close>

fun skipLineComment :: "Source \<Rightarrow> Source" where
  "skipLineComment [] = []"
| "skipLineComment (b # src) = (if b = newline then src else skipLineComment src)"

text \<open>The loop of the block comment: \<^verbatim>\<open>Peek(2)\<close>; fewer than two bytes is the error;
  \<^verbatim>\<open>*/\<close> ends the comment; otherwise one byte is discarded.\<close>

fun skipBlockComment :: "Source \<Rightarrow> tokenize_error + Source" where
  "skipBlockComment (a # b # src) =
     (if a = CHR ''*'' \<and> b = CHR ''/'' then Inr src else skipBlockComment (b # src))"
| "skipBlockComment src = Inl UnclosedBlockComment"


subsection \<open>\<^verbatim>\<open>tokenizer.nextImpl\<close>\<close>

text \<open>One call of \<^verbatim>\<open>nextImpl\<close>. The Go function returns a token, or \<^verbatim>\<open>nil, nil\<close> (a space
  or a comment was skipped: \<open>None\<close> here), or an error. The result carries the tokenizer
  and the source as the call leaves them. \<open>bs\<close> is \<^verbatim>\<open>src.Peek(3)\<close>; a case of the switch
  that does not return falls through to the last two statements, \<open>single\<close>.\<close>

definition nextImpl ::
  "'n lex \<Rightarrow> tokenizer \<Rightarrow> Source \<Rightarrow> tokenize_error + ('n token option \<times> tokenizer \<times> Source)"
where
  "nextImpl lx t0 src =
    (let bs = take 3 src in
     if length bs = 0 then Inl io_EOF
     else
       let b = bs ! 0;
           t = t0\<lparr>wasSpace := isSpace t0\<rparr>;
           t = t\<lparr>isSpace := (b = CHR '' '' \<or> b = tab \<or> b = vtab \<or> b = formfeed
                               \<or> b = creturn \<or> b = newline)\<rparr>;
           tok = (\<lambda>ty n. Inr (Some (mk_token ty), t, drop n src));
           single = Inr (Some (mk_token (Byte b)), t, drop 1 src)
       in
       if b = newline then Inr (Some (mk_token (Byte b)), t, drop 1 src)
       else if b = CHR '' '' \<or> b = tab \<or> b = vtab \<or> b = formfeed \<or> b = creturn
         then Inr (None, t, drop 1 src)
       else if b = CHR ''+'' then
         (if length bs \<ge> 2 \<and> bs ! 1 = CHR ''+'' then tok Inc 2
          else if length bs \<ge> 2 \<and> bs ! 1 = CHR ''='' then tok AddEq 2
          else single)
       else if b = CHR ''-'' then
         (if length bs \<ge> 2 \<and> bs ! 1 = CHR ''-'' then tok Dec 2
          else if length bs \<ge> 2 \<and> bs ! 1 = CHR ''='' then tok SubEq 2
          else if length bs \<ge> 2 \<and> bs ! 1 = CHR ''>'' then tok Arrow 2
          else single)
       else if b = CHR ''*'' then
         (if length bs \<ge> 2 \<and> bs ! 1 = CHR ''='' then tok MulEq 2 else single)
       else if b = CHR ''/'' then
         (if length bs \<ge> 2 \<and> bs ! 1 = CHR ''/'' then
            Inr (None, t, skipLineComment (drop 2 src))
          else if length bs \<ge> 2 \<and> bs ! 1 = CHR ''*'' then
            (case skipBlockComment (drop 2 src) of
               Inl err \<Rightarrow> Inl err
             | Inr src' \<Rightarrow> Inr (None, t, src'))
          else if length bs \<ge> 2 \<and> bs ! 1 = CHR ''='' then tok DivEq 2
          else single)
       else if b = CHR ''%'' then
         (if length bs \<ge> 2 \<and> bs ! 1 = CHR ''='' then tok ModEq 2 else single)
       else if b = CHR ''='' then
         (if length bs \<ge> 2 \<and> bs ! 1 = CHR ''='' then tok Eq 2 else single)
       else if b = CHR ''<'' then
         (if headerNameExpected t then
            (case ReadHeaderName lx src of
               Inl err \<Rightarrow> Inl err
             | Inr (s, src') \<Rightarrow> Inr (Some ((mk_token HeaderName)\<lparr>StringValue := s\<rparr>), t, src'))
          else if length bs \<ge> 2 \<and> bs ! 1 = CHR ''<'' then
            (if length bs \<ge> 3 \<and> bs ! 2 = CHR ''='' then tok ShlEq 3 else tok Shl 2)
          else single)
       else if b = CHR ''>'' then
         (if length bs \<ge> 2 \<and> bs ! 1 = CHR ''>'' then
            (if length bs \<ge> 3 \<and> bs ! 2 = CHR ''='' then tok ShrEq 3 else tok Shr 2)
          else single)
       else if b = CHR ''&'' then
         (if length bs \<ge> 2 \<and> bs ! 1 = CHR ''&'' then tok AndAnd 2
          else if length bs \<ge> 2 \<and> bs ! 1 = CHR ''='' then tok AndEq 2
          else single)
       else if b = CHR ''|'' then
         (if length bs \<ge> 2 \<and> bs ! 1 = CHR ''|'' then tok OrOr 2
          else if length bs \<ge> 2 \<and> bs ! 1 = CHR ''='' then tok OrEq 2
          else single)
       else if b = CHR ''!'' then
         (if length bs \<ge> 2 \<and> bs ! 1 = CHR ''='' then tok Ne 2 else single)
       else if b = CHR ''^'' then
         (if length bs \<ge> 2 \<and> bs ! 1 = CHR ''='' then tok XorEq 2 else single)
       else if b = quote then
         (case ReadChar lx src of
            Inl err \<Rightarrow> Inl err
          | Inr (n, src') \<Rightarrow>
              Inr (Some ((mk_token NumberLiteral)\<lparr>NumberValue := Some (ctype_Int lx n)\<rparr>), t, src'))
       else if b = dquote then
         (if headerNameExpected t then
            (case ReadHeaderName lx src of
               Inl err \<Rightarrow> Inl err
             | Inr (s, src') \<Rightarrow> Inr (Some ((mk_token HeaderName)\<lparr>StringValue := s\<rparr>), t, src'))
          else
            (case ReadString lx src of
               Inl err \<Rightarrow> Inl err
             | Inr (s, src') \<Rightarrow> Inr (Some ((mk_token StringLiteral)\<lparr>StringValue := s\<rparr>), t, src')))
       else if b = CHR ''.'' then
         (if length bs \<ge> 2 \<and> bs ! 1 = CHR ''.'' \<and> length bs \<ge> 3 \<and> bs ! 2 = CHR ''.''
            then tok DotDotDot 3
          else if length bs \<ge> 2 \<and> CHR ''0'' \<le> bs ! 1 \<and> bs ! 1 \<le> CHR ''9'' then
            (case ReadNumber lx src of
               Inl err \<Rightarrow> Inl err
             | Inr (n, src') \<Rightarrow> Inr (Some ((mk_token NumberLiteral)\<lparr>NumberValue := Some n\<rparr>), t, src'))
          else single)
       else if b \<in> set ''0123456789'' then
         (case ReadNumber lx src of
            Inl err \<Rightarrow> Inl err
          | Inr (n, src') \<Rightarrow> Inr (Some ((mk_token NumberLiteral)\<lparr>NumberValue := Some n\<rparr>), t, src'))
       else if b = CHR ''#'' then
         (if length bs \<ge> 2 \<and> bs ! 1 = CHR ''#'' then tok HashHash 2 else single)
       else if b \<in> set '';(),{}[]?:~'' then single
       else if IsNondigit lx b then
         (case ReadIdentifier lx src of
            Inl err \<Rightarrow> Inl err
          | Inr (name, src') \<Rightarrow>
              (case KeywordToType lx name of
                 Some ty \<Rightarrow> Inr (Some (mk_token ty), t, src')
               | None \<Rightarrow> Inr (Some ((mk_token Ident)\<lparr>Name := name\<rparr>), t, src')))
       else Inl (InvalidToken b))"

lemma skipLineComment_length: "length (skipLineComment (drop n src)) \<le> length src"
proof -
  have "length (skipLineComment xs) \<le> length xs" for xs
    by (induction xs) auto
  from this[of "drop n src"] show ?thesis by simp
qed

lemma skipBlockComment_length:
  "skipBlockComment (drop n src) = Inr src' \<Longrightarrow> length src' \<le> length src"
proof -
  have "skipBlockComment xs = Inr ys \<Longrightarrow> length ys \<le> length xs" for xs ys
    by (induction xs arbitrary: ys rule: skipBlockComment.induct) (auto split: if_splits)
  from this[of "drop n src" src'] show "skipBlockComment (drop n src) = Inr src' \<Longrightarrow> ?thesis"
    by simp
qed

text \<open>Whatever \<^verbatim>\<open>nextImpl\<close> returns without an error, it has moved \<^verbatim>\<open>isSpace\<close> into
  \<^verbatim>\<open>wasSpace\<close>, set \<^verbatim>\<open>isSpace\<close> from the first byte, and left \<^verbatim>\<open>ppstate\<close> alone.\<close>

lemma nextImpl_state:
  "nextImpl lx t src = Inr (x, t', src') \<Longrightarrow>
     t' = t\<lparr>wasSpace := isSpace t,
            isSpace := (hd src = CHR '' '' \<or> hd src = tab \<or> hd src = vtab \<or> hd src = formfeed
                               \<or> hd src = creturn \<or> hd src = newline)\<rparr>"
  unfolding nextImpl_def Let_def
  by (cases src) (simp_all split: if_splits sum.splits prod.splits option.splits)

text \<open>A call that skips (a space or a comment) consumes at least one byte.\<close>

lemma nextImpl_skip_shorter:
  "nextImpl lx t src = Inr (None, t', src') \<Longrightarrow> length src' < length src"
  unfolding nextImpl_def Let_def
  by (cases src)
     (auto split: if_splits sum.splits prod.splits option.splits
           simp: mk_token_def less_Suc_eq_le skipLineComment_length
           dest: skipBlockComment_length)

subsection \<open>\<^verbatim>\<open>tokenizer.next\<close>\<close>

text \<open>The loop of \<^verbatim>\<open>next\<close> calls \<^verbatim>\<open>nextImpl\<close> until it returns a token or an error; each
  skipping call shortens the source, so the loop ends. Then the token gets its
  \<^verbatim>\<open>Adjacent\<close> flag and the switch on its type sets \<^verbatim>\<open>ppstate\<close>.\<close>

function tokenizer_next ::
  "'n lex \<Rightarrow> tokenizer \<Rightarrow> Source \<Rightarrow> tokenize_error + ('n token \<times> tokenizer \<times> Source)"
where
  "tokenizer_next lx t src =
     (case nextImpl lx t src of
        Inl err \<Rightarrow> Inl err
      | Inr (None, t', src') \<Rightarrow> tokenizer_next lx t' src'
      | Inr (Some tk, t', src') \<Rightarrow>
          (let tk = tk\<lparr>Adjacent := \<not> wasSpace t'\<rparr>;
               t'' = (if Type tk = Byte newline then t'\<lparr>ppstate := 0\<rparr>
                      else if Type tk = Byte (CHR ''#'') then
                        (if ppstate t' = 0 then t'\<lparr>ppstate := 1\<rparr> else t'\<lparr>ppstate := - 1\<rparr>)
                      else if Type tk = Ident then
                        (if ppstate t' = 1 \<and> Name tk = ''include'' then t'\<lparr>ppstate := 2\<rparr>
                         else t'\<lparr>ppstate := - 1\<rparr>)
                      else t'\<lparr>ppstate := - 1\<rparr>)
           in Inr (tk, t'', src')))"
  by pat_completeness auto
termination
  by (relation "measure (\<lambda>(lx, t, src). length src)") (auto dest: nextImpl_skip_shorter)

declare tokenizer_next.simps [simp del]

subsection \<open>\<^verbatim>\<open>tokenizer.scan\<close>, \<^verbatim>\<open>Tokenize\<close>\<close>

text \<open>The loop of \<^verbatim>\<open>scan\<close> appends tokens until \<^verbatim>\<open>next\<close> fails; \<^verbatim>\<open>io.EOF\<close> ends the loop,
  any other error is returned. Whether the loop ends depends on the sub-lexers consuming
  input, so it is a partial function: \<open>None\<close> is a loop that never returns.\<close>

partial_function (option) scan_loop ::
  "'n lex \<Rightarrow> tokenizer \<Rightarrow> Source \<Rightarrow> 'n token list \<Rightarrow> (tokenize_error + 'n token list) option"
where
  "scan_loop lx t src ts =
     (case tokenizer_next lx t src of
        Inl err \<Rightarrow> if err = io_EOF then Some (Inr ts) else Some (Inl err)
      | Inr (tk, t', src') \<Rightarrow> scan_loop lx t' src' (ts @ [tk]))"

definition scan :: "'n lex \<Rightarrow> tokenizer \<Rightarrow> Source \<Rightarrow> (tokenize_error + 'n token list) option" where
  "scan lx t src =
     (case scan_loop lx t src [] of
        None \<Rightarrow> None
      | Some (Inl err) \<Rightarrow> Some (Inl err)
      | Some (Inr ts) \<Rightarrow>
          Some (Inr (if length ts = 0 \<or> Type (last ts) \<noteq> Byte newline
                     then ts @ [mk_token (Byte newline)] else ts)))"

text \<open>Modelled from the spec: \<^verbatim>\<open>ioutil.NewBackslashNewLineStripper\<close>, which is not part of
  the sources. It removes every backslash that a new-line byte follows, with that byte
  (section 4.1 of the specification).\<close>

fun NewBackslashNewLineStripper :: "Source \<Rightarrow> Source" where
  "NewBackslashNewLineStripper (a # b # src) =
     (if a = backslash \<and> b = newline then NewBackslashNewLineStripper src
      else a # NewBackslashNewLineStripper (b # src))"
| "NewBackslashNewLineStripper src = src"

definition Tokenize :: "'n lex \<Rightarrow> Source \<Rightarrow> (tokenize_error + 'n token list) option" where
  "Tokenize lx src = scan lx tokenizer0 (NewBackslashNewLineStripper src)"

subsection \<open>Sub-lexers for the examples\<close>

text \<open>An instance of the sub-lexers on which the examples below run. Identifiers are read
  as the loop in token/token.go reads them (a nondigit, then nondigits and digits); a
  header name is the text between the delimiters, as the specification describes it. The
  other sub-lexers fail; no example calls them.\<close>

definition example_ReadIdentifier :: "Source \<Rightarrow> tokenize_error + (string \<times> Source)" where
  "example_ReadIdentifier src =
     (case src of
        [] \<Rightarrow> Inl io_EOF
      | b # rest \<Rightarrow>
          if isNondigit b
          then Inr (b # takeWhile (\<lambda>c. isNondigit c \<or> isDigit c) rest,
                    dropWhile (\<lambda>c. isNondigit c \<or> isDigit c) rest)
          else Inl (LexError ''identifier''))"

definition example_ReadHeaderName :: "Source \<Rightarrow> tokenize_error + (string \<times> Source)" where
  "example_ReadHeaderName src =
     (case src of
        [] \<Rightarrow> Inl io_EOF
      | b # rest \<Rightarrow>
          (let close = (if b = CHR ''<'' then CHR ''>'' else dquote) in
           if close \<in> set rest
           then Inr (takeWhile (\<lambda>c. c \<noteq> close) rest, drop 1 (dropWhile (\<lambda>c. c \<noteq> close) rest))
           else Inl (LexError ''header name'')))"

definition example_lex :: "int lex" where
  "example_lex =
     \<lparr>ReadHeaderName = example_ReadHeaderName,
      ReadChar = (\<lambda>src. Inl (LexError ''char'')),
      ctype_Int = (\<lambda>n. n),
      ReadString = (\<lambda>src. Inl (LexError ''string'')),
      ReadNumber = (\<lambda>src. Inl (LexError ''number'')),
      ReadIdentifier = example_ReadIdentifier,
      IsNondigit = isNondigit,
      KeywordToType = (\<lambda>name. None)\<rparr>"

declare scan_loop.simps [code]

subsection \<open>The new-line token at the end\<close>

lemma tokenizer_next_eof: "tokenizer_next lx t [] = Inl io_EOF"
  by (simp add: tokenizer_next.simps nextImpl_def)

lemma scan_empty: "scan lx t [] = Some (Inr [mk_token (Byte newline)])"
  by (subst scan_def, subst scan_loop.simps) (simp add: tokenizer_next_eof)

lemma scan_result:
  assumes "scan lx t src = Some (Inr ts)"
  shows "ts \<noteq> [] \<and> Type (last ts) = Byte newline"
  using assms
  by (auto simp: scan_def mk_token_def split: option.splits sum.splits if_splits)

text \<open>Claim C5. Whenever \<^verbatim>\<open>scan\<close> succeeds, its result is the list of scanned tokens,
  with a new-line token appended when that list is empty or does not end with one; so
  the result is not empty and its last token is a new-line token. The same holds of
  \<^verbatim>\<open>Tokenize\<close>, and the empty input gives the single new-line token.\<close>

theorem tokenize_ends_with_newline:
  "(scan lx t src = Some (Inr ts) \<longrightarrow>
      ts \<noteq> [] \<and> Type (last ts) = Byte newline \<and>
      (\<exists>ts0. scan_loop lx t src [] = Some (Inr ts0) \<and>
             ts = (if ts0 = [] \<or> Type (last ts0) \<noteq> Byte newline
                   then ts0 @ [mk_token (Byte newline)] else ts0)))
   \<and> (Tokenize lx bytes = Some (Inr ts') \<longrightarrow> ts' \<noteq> [] \<and> Type (last ts') = Byte newline)
   \<and> Tokenize lx [] = Some (Inr [mk_token (Byte newline)])"
proof (intro conjI impI)
  assume a: "scan lx t src = Some (Inr ts)"
  from scan_result[OF a] show "ts \<noteq> []" and "Type (last ts) = Byte newline" by simp_all
  from a obtain ts0 where l: "scan_loop lx t src [] = Some (Inr ts0)"
    by (cases "scan_loop lx t src []"; cases "the (scan_loop lx t src [])")
       (simp_all add: scan_def)
  with a have "ts = (if ts0 = [] \<or> Type (last ts0) \<noteq> Byte newline
                   then ts0 @ [mk_token (Byte newline)] else ts0)"
    by (simp add: scan_def)
  with l show "\<exists>ts0. scan_loop lx t src [] = Some (Inr ts0) \<and>
             ts = (if ts0 = [] \<or> Type (last ts0) \<noteq> Byte newline
                   then ts0 @ [mk_token (Byte newline)] else ts0)"
    by blast
next
  assume "Tokenize lx bytes = Some (Inr ts')"
  then have "scan lx tokenizer0 (NewBackslashNewLineStripper bytes) = Some (Inr ts')"
    by (simp add: Tokenize_def)
  from scan_result[OF this] show "ts' \<noteq> []" and "Type (last ts') = Byte newline" by simp_all
next
  show "Tokenize lx [] = Some (Inr [mk_token (Byte newline)])"
    by (simp add: Tokenize_def scan_empty)
qed

theorem tokenize_ends_with_newline_witness:
  "Tokenize example_lex ''+'' =
      Some (Inr [\<lparr>Type = Byte (CHR ''+''), NumberValue = None, StringValue = [], Name = [],
                  Adjacent = True\<rparr>, mk_token (Byte newline)])
   \<and> [\<lparr>Type = Byte (CHR ''+''), NumberValue = None, StringValue = [], Name = [],
                  Adjacent = True\<rparr>, mk_token (Byte newline) :: int token] \<noteq> []
   \<and> Type (last [\<lparr>Type = Byte (CHR ''+''), NumberValue = None, StringValue = [], Name = [],
                  Adjacent = True\<rparr>, mk_token (Byte newline) :: int token]) = Byte newline"
proof -
  have e: "Tokenize example_lex ''+'' =
      Some (Inr [\<lparr>Type = Byte (CHR ''+''), NumberValue = None, StringValue = [], Name = [],
                  Adjacent = True\<rparr>, mk_token (Byte newline)])"
    by code_simp
  from tokenize_ends_with_newline[of example_lex _ _ _ "''+''"
      "[\<lparr>Type = Byte (CHR ''+''), NumberValue = None, StringValue = [], Name = [],
                  Adjacent = True\<rparr>, mk_token (Byte newline)]"] e
  show ?thesis by blast
qed

subsection \<open>The preprocessing state\<close>

text \<open>The transitions of \<^verbatim>\<open>ppstate\<close> in the words of the specification: a new-line token
  gives 0; a \<^verbatim>\<open>#\<close> in state 0 gives 1; the identifier \<^verbatim>\<open>include\<close> in state 1 gives 2;
  every other token gives -1.\<close>

definition spec_ppstate_step :: "int \<Rightarrow> 'n token \<Rightarrow> int" where
  "spec_ppstate_step s tk =
     (if Type tk = Byte newline then 0
      else if s = 0 \<and> Type tk = Byte (CHR ''#'') then 1
      else if s = 1 \<and> Type tk = Ident \<and> Name tk = ''include'' then 2
      else - 1)"

lemma tokenizer_next_ppstate:
  "tokenizer_next lx t src = Inr (tk, t', src') \<Longrightarrow> ppstate t' = spec_ppstate_step (ppstate t) tk"
proof (induction lx t src rule: tokenizer_next.induct)
  case (1 lx t src)
  show ?case
  proof (cases "nextImpl lx t src")
    case (Inl err)
    with "1.prems" show ?thesis by (simp add: tokenizer_next.simps)
  next
    case (Inr r)
    obtain x t1 src1 where r: "r = (x, t1, src1)" by (cases r)
    have st: "ppstate t1 = ppstate t"
      using nextImpl_state[of lx t src x t1 src1] Inr r by simp
    show ?thesis
    proof (cases x)
      case None
      with Inr r "1.prems" have "tokenizer_next lx t1 src1 = Inr (tk, t', src')"
        by (simp add: tokenizer_next.simps)
      from "1.IH"[OF Inr r[symmetric] None refl this] st show ?thesis by simp
    next
      case (Some tk0)
      with Inr r "1.prems" st show ?thesis
        by (auto simp: tokenizer_next.simps[of lx t src] spec_ppstate_step_def Let_def
                 split: if_splits)
    qed
  qed
qed


lemma nextImpl_lt:
  "nextImpl lx t (CHR ''<'' # rest) =
     (if ppstate t = 2 then
        (case ReadHeaderName lx (CHR ''<'' # rest) of
           Inl err \<Rightarrow> Inl err
         | Inr (s, src') \<Rightarrow>
             Inr (Some ((mk_token HeaderName)\<lparr>StringValue := s\<rparr>),
                  t\<lparr>wasSpace := isSpace t, isSpace := False\<rparr>, src'))
      else if take 1 rest = ''<'' then
        (if take 1 (drop 1 rest) = ''=''
         then Inr (Some (mk_token ShlEq), t\<lparr>wasSpace := isSpace t, isSpace := False\<rparr>, drop 2 rest)
         else Inr (Some (mk_token Shl), t\<lparr>wasSpace := isSpace t, isSpace := False\<rparr>, drop 1 rest))
      else Inr (Some (mk_token (Byte (CHR ''<''))), t\<lparr>wasSpace := isSpace t, isSpace := False\<rparr>, rest))"
  by (cases rest; cases "tl rest")
     (simp_all add: nextImpl_def headerNameExpected_def Let_def split: sum.splits prod.splits)

lemma nextImpl_dquote:
  "nextImpl lx t (dquote # rest) =
     (if ppstate t = 2 then
        (case ReadHeaderName lx (dquote # rest) of
           Inl err \<Rightarrow> Inl err
         | Inr (s, src') \<Rightarrow>
             Inr (Some ((mk_token HeaderName)\<lparr>StringValue := s\<rparr>),
                  t\<lparr>wasSpace := isSpace t, isSpace := False\<rparr>, src'))
      else
        (case ReadString lx (dquote # rest) of
           Inl err \<Rightarrow> Inl err
         | Inr (s, src') \<Rightarrow>
             Inr (Some ((mk_token StringLiteral)\<lparr>StringValue := s\<rparr>),
                  t\<lparr>wasSpace := isSpace t, isSpace := False\<rparr>, src')))"
  by (simp add: nextImpl_def headerNameExpected_def Let_def split: sum.splits prod.splits)

text \<open>Claim C6. The tokenizer starts in state 0; every token \<^verbatim>\<open>next\<close> returns moves the
  state as the specification's table says; and a token that starts with \<^verbatim>\<open><\<close> or with a
  double quote is a header name (read by \<^verbatim>\<open>ReadHeaderName\<close>) exactly when the state is 2:
  in every other state the first is one of the punctuators \<^verbatim>\<open><\<close>, \<^verbatim>\<open><<\<close>, \<^verbatim>\<open><<=\<close> and the
  second a string literal read by \<^verbatim>\<open>ReadString\<close>.\<close>

theorem ppstate_machine:
  "ppstate tokenizer0 = 0
   \<and> (tokenizer_next lx t src = Inr (tk, t', src') \<longrightarrow>
        ppstate t' = spec_ppstate_step (ppstate t) tk)
   \<and> ((b = CHR ''<'' \<or> b = dquote) \<and> tokenizer_next lx t (b # rest) = Inr (tk, t', src') \<longrightarrow>
        (Type tk = HeaderName \<longleftrightarrow> ppstate t = 2)
        \<and> (ppstate t = 2 \<longrightarrow> ReadHeaderName lx (b # rest) = Inr (StringValue tk, src'))
        \<and> (ppstate t \<noteq> 2 \<and> b = CHR ''<'' \<longrightarrow> Type tk \<in> {Byte (CHR ''<''), Shl, ShlEq})
        \<and> (ppstate t \<noteq> 2 \<and> b = dquote \<longrightarrow>
              Type tk = StringLiteral \<and> ReadString lx (b # rest) = Inr (StringValue tk, src')))"
proof (intro conjI impI)
  show "ppstate tokenizer0 = 0" by (simp add: tokenizer0_def)
next
  assume "tokenizer_next lx t src = Inr (tk, t', src')"
  then show "ppstate t' = spec_ppstate_step (ppstate t) tk" by (rule tokenizer_next_ppstate)
next
  assume a: "(b = CHR ''<'' \<or> b = dquote) \<and> tokenizer_next lx t (b # rest) = Inr (tk, t', src')"
  then have n: "tokenizer_next lx t (b # rest) = Inr (tk, t', src')" by simp
  from a consider (lt) "b = CHR ''<''" | (dq) "b = dquote" by blast
  then have "(Type tk = HeaderName \<longleftrightarrow> ppstate t = 2)
        \<and> (ppstate t = 2 \<longrightarrow> ReadHeaderName lx (b # rest) = Inr (StringValue tk, src'))
        \<and> (ppstate t \<noteq> 2 \<and> b = CHR ''<'' \<longrightarrow> Type tk \<in> {Byte (CHR ''<''), Shl, ShlEq})
        \<and> (ppstate t \<noteq> 2 \<and> b = dquote \<longrightarrow>
              Type tk = StringLiteral \<and> ReadString lx (b # rest) = Inr (StringValue tk, src'))"
  proof cases
    case lt
    with n show ?thesis
      by (auto simp: tokenizer_next.simps[of lx t "CHR ''<'' # rest"] nextImpl_lt mk_token_def Let_def
               split: if_splits sum.splits prod.splits)
  next
    case dq
    with n show ?thesis
      by (auto simp: tokenizer_next.simps[of lx t "dquote # rest"] nextImpl_dquote mk_token_def Let_def
               split: if_splits sum.splits prod.splits)
  qed
  then show "Type tk = HeaderName \<longleftrightarrow> ppstate t = 2"
    and "ppstate t = 2 \<Longrightarrow> ReadHeaderName lx (b # rest) = Inr (StringValue tk, src')"
    and "ppstate t \<noteq> 2 \<and> b = CHR ''<'' \<Longrightarrow> Type tk \<in> {Byte (CHR ''<''), Shl, ShlEq}"
    and "ppstate t \<noteq> 2 \<and> b = dquote \<Longrightarrow> Type tk = StringLiteral"
    and "ppstate t \<noteq> 2 \<and> b = dquote \<Longrightarrow> ReadString lx (b # rest) = Inr (StringValue tk, src')"
    by blast+
qed

theorem ppstate_machine_witness:
  "tokenizer_next example_lex \<lparr>ppstate = 2, isSpace = True, wasSpace = False\<rparr> ''<a.h>'' =
     Inr (\<lparr>Type = HeaderName, NumberValue = None, StringValue = ''a.h'', Name = [], Adjacent = False\<rparr>,
          \<lparr>ppstate = - 1, isSpace = False, wasSpace = True\<rparr>, [])
   \<and> ppstate \<lparr>ppstate = - 1, isSpace = False, wasSpace = True\<rparr> =
       spec_ppstate_step (ppstate \<lparr>ppstate = 2, isSpace = True, wasSpace = False\<rparr>)
         (\<lparr>Type = HeaderName, NumberValue = None, StringValue = ''a.h'', Name = [], Adjacent = False\<rparr>
            :: int token)
   \<and> (Type (\<lparr>Type = HeaderName, NumberValue = None, StringValue = ''a.h'', Name = [], Adjacent = False\<rparr>
            :: int token) = HeaderName
        \<longleftrightarrow> ppstate \<lparr>ppstate = 2, isSpace = True, wasSpace = False\<rparr> = 2)"
proof -
  have e: "tokenizer_next example_lex \<lparr>ppstate = 2, isSpace = True, wasSpace = False\<rparr> ''<a.h>'' =
     Inr (\<lparr>Type = HeaderName, NumberValue = None, StringValue = ''a.h'', Name = [], Adjacent = False\<rparr>,
          \<lparr>ppstate = - 1, isSpace = False, wasSpace = True\<rparr>, [])"
    by code_simp
  from ppstate_machine[of example_lex "\<lparr>ppstate = 2, isSpace = True, wasSpace = False\<rparr>" "''<a.h>''"
      "\<lparr>Type = HeaderName, NumberValue = None, StringValue = ''a.h'', Name = [], Adjacent = False\<rparr>"
      "\<lparr>ppstate = - 1, isSpace = False, wasSpace = True\<rparr>" "[]" "CHR ''<''" "''a.h>''"] e
  show ?thesis by simp
qed

subsection \<open>The adjacency flag\<close>

lemma tokenizer_next_adjacent:
  "tokenizer_next lx t src = Inr (tk, t', src') \<Longrightarrow> Adjacent tk = (\<not> wasSpace t')"
proof (induction lx t src rule: tokenizer_next.induct)
  case (1 lx t src)
  show ?case
  proof (cases "nextImpl lx t src")
    case (Inl err)
    with "1.prems" show ?thesis by (simp add: tokenizer_next.simps)
  next
    case (Inr r)
    obtain x t1 src1 where r: "r = (x, t1, src1)" by (cases r)
    show ?thesis
    proof (cases x)
      case None
      with Inr r "1.prems" have "tokenizer_next lx t1 src1 = Inr (tk, t', src')"
        by (simp add: tokenizer_next.simps)
      from "1.IH"[OF Inr r[symmetric] None refl this] show ?thesis .
    next
      case (Some tk0)
      with Inr r "1.prems" show ?thesis
        by (auto simp: tokenizer_next.simps[of lx t src] Let_def split: if_splits)
    qed
  qed
qed

text \<open>Claim C10, as the code has it. \<^verbatim>\<open>isSpace\<close> is false in the initial tokenizer, and a
  token returned by the first call of \<^verbatim>\<open>nextImpl\<close> from a state with \<^verbatim>\<open>isSpace\<close> false (a
  token that starts at the first byte of the input) has \<^verbatim>\<open>Adjacent\<close> true. In general the
  flag of a returned token is the negation of \<^verbatim>\<open>wasSpace\<close>, the \<^verbatim>\<open>isSpace\<close> of the call
  before the one that produced the token.\<close>

theorem token_at_start_adjacent:
  "\<not> isSpace tokenizer0
   \<and> (\<not> isSpace t \<and> nextImpl lx t src = Inr (Some tk0, t1, src1) \<longrightarrow>
        (\<exists>t'. tokenizer_next lx t src = Inr (tk0\<lparr>Adjacent := True\<rparr>, t', src1)))
   \<and> (tokenizer_next lx t src = Inr (tk, t', src') \<longrightarrow> Adjacent tk = (\<not> wasSpace t'))"
proof (intro conjI impI)
  show "\<not> isSpace tokenizer0" by (simp add: tokenizer0_def)
next
  assume a: "\<not> isSpace t \<and> nextImpl lx t src = Inr (Some tk0, t1, src1)"
  then have "wasSpace t1 = False"
    using nextImpl_state[of lx t src "Some tk0" t1 src1] by simp
  with a show "\<exists>t'. tokenizer_next lx t src = Inr (tk0\<lparr>Adjacent := True\<rparr>, t', src1)"
    by (simp add: tokenizer_next.simps[of lx t src] Let_def)
next
  assume "tokenizer_next lx t src = Inr (tk, t', src')"
  then show "Adjacent tk = (\<not> wasSpace t')" by (rule tokenizer_next_adjacent)
qed

theorem token_at_start_adjacent_witness:
  "\<not> isSpace tokenizer0
   \<and> nextImpl example_lex tokenizer0 ''+ +'' =
       Inr (Some (mk_token (Byte (CHR ''+''))), \<lparr>ppstate = 0, isSpace = False, wasSpace = False\<rparr>, '' +'')
   \<and> (\<exists>t'. tokenizer_next example_lex tokenizer0 ''+ +'' =
         Inr ((mk_token (Byte (CHR ''+'')))\<lparr>Adjacent := True\<rparr>, t', '' +''))"
proof -
  have n: "nextImpl example_lex tokenizer0 ''+ +'' =
       Inr (Some (mk_token (Byte (CHR ''+''))), \<lparr>ppstate = 0, isSpace = False, wasSpace = False\<rparr>, '' +'')"
    by (simp add: nextImpl_def tokenizer0_def mk_token_def Let_def)
  have s: "\<not> isSpace tokenizer0" by (simp add: tokenizer0_def)
  from token_at_start_adjacent[of tokenizer0 example_lex "''+ +''" "mk_token (Byte (CHR ''+''))"
      "\<lparr>ppstate = 0, isSpace = False, wasSpace = False\<rparr>" "'' +''"] n s
  show ?thesis by blast
qed

text \<open>Claim C10 as stated fails: the first token of an input is not always adjacent. On
  the input of a space and a \<^verbatim>\<open>+\<close> the first token is the \<^verbatim>\<open>+\<close>, with \<^verbatim>\<open>Adjacent\<close> false
  (no sub-lexer is called on this input).\<close>

theorem first_token_after_space_not_adjacent:
  "Tokenize example_lex '' +'' =
     Some (Inr [\<lparr>Type = Byte (CHR ''+''), NumberValue = None, StringValue = [], Name = [],
                  Adjacent = False\<rparr>,
                \<lparr>Type = Byte newline, NumberValue = None, StringValue = [], Name = [],
                  Adjacent = False\<rparr>])"
  by code_simp

subsection \<open>\<^verbatim>\<open>FinishTokenize\<close>\<close>

text \<open>A token list in Go is a slice of pointers, and \<^verbatim>\<open>joinStringLiterals\<close> writes through
  one of them (\<^verbatim>\<open>last.StringValue += t.StringValue\<close>). The model keeps the pointers: a
  token list is a list of addresses and a heap maps every address to its token, so a
  token that occurs twice in a list is the same object twice. The functions return the
  new list with the heap they leave.\<close>

type_synonym addr = nat
type_synonym 'n heap = "addr \<Rightarrow> 'n token"

text \<open>\<open>r\<close> is the slice the loop appends to.\<close>

fun stripNewLineTokens :: "'n heap \<Rightarrow> addr list \<Rightarrow> addr list \<Rightarrow> addr list" where
  "stripNewLineTokens h r [] = r"
| "stripNewLineTokens h r (t # tokens) =
     (if Type (h t) = Byte newline then stripNewLineTokens h r tokens
      else stripNewLineTokens h (r @ [t]) tokens)"

fun joinStringLiterals_loop :: "addr list \<Rightarrow> addr list \<Rightarrow> 'n heap \<Rightarrow> addr list \<times> 'n heap" where
  "joinStringLiterals_loop r [] h = (r, h)"
| "joinStringLiterals_loop r (t # tokens) h =
     (if r \<noteq> [] \<and> Type (h (last r)) = StringLiteral \<and> Type (h t) = StringLiteral
      then joinStringLiterals_loop r tokens
             (h(last r := (h (last r))\<lparr>StringValue := StringValue (h (last r)) @ StringValue (h t)\<rparr>))
      else joinStringLiterals_loop (r @ [t]) tokens h)"

definition joinStringLiterals :: "addr list \<Rightarrow> 'n heap \<Rightarrow> addr list \<times> 'n heap" where
  "joinStringLiterals tokens h = joinStringLiterals_loop [] tokens h"

definition FinishTokenize :: "addr list \<Rightarrow> 'n heap \<Rightarrow> addr list \<times> 'n heap" where
  "FinishTokenize tokens h = joinStringLiterals (stripNewLineTokens h [] tokens) h"

text \<open>A list of token types in which no two neighbours are both string literals.\<close>

fun no_adjacent_strings :: "TokenType list \<Rightarrow> bool" where
  "no_adjacent_strings (a # b # ts) \<longleftrightarrow>
     \<not> (a = StringLiteral \<and> b = StringLiteral) \<and> no_adjacent_strings (b # ts)"
| "no_adjacent_strings ts \<longleftrightarrow> True"

lemma no_adjacent_strings_snoc:
  "no_adjacent_strings (ts @ [t]) \<longleftrightarrow>
     no_adjacent_strings ts \<and> (ts = [] \<or> \<not> (last ts = StringLiteral \<and> t = StringLiteral))"
  by (induction ts rule: no_adjacent_strings.induct) auto

lemma no_adjacent_strings_prefix:
  "no_adjacent_strings (xs @ ys) \<Longrightarrow> no_adjacent_strings xs"
  by (induction xs rule: no_adjacent_strings.induct) auto

lemma stripNewLineTokens_eq: "stripNewLineTokens h r ts = r @ filter (\<lambda>a. Type (h a) \<noteq> Byte newline) ts"
  by (induction ts arbitrary: r) auto

lemma join_loop_types:
  "joinStringLiterals_loop r ts h = (r', h') \<Longrightarrow> Type (h' a) = Type (h a)"
  by (induction r ts h rule: joinStringLiterals_loop.induct) (auto split: if_splits)

lemma join_loop_set:
  "joinStringLiterals_loop r ts h = (r', h') \<Longrightarrow> set r' \<subseteq> set r \<union> set ts"
  by (induction r ts h rule: joinStringLiterals_loop.induct) (auto split: if_splits)

lemma join_loop_no_adjacent:
  "joinStringLiterals_loop r ts h = (r', h') \<Longrightarrow> no_adjacent_strings (map (\<lambda>a. Type (h a)) r)
     \<Longrightarrow> no_adjacent_strings (map (\<lambda>a. Type (h' a)) r')"
proof (induction r ts h rule: joinStringLiterals_loop.induct)
  case (1 r h)
  then show ?case by simp
next
  case (2 r t tokens h)
  show ?case
  proof (cases "r \<noteq> [] \<and> Type (h (last r)) = StringLiteral \<and> Type (h t) = StringLiteral")
    case True
    let ?h = "h(last r := (h (last r))\<lparr>StringValue := StringValue (h (last r)) @ StringValue (h t)\<rparr>)"
    have ty: "(\<lambda>a. Type (?h a)) = (\<lambda>a. Type (h a))" by auto
    from True "2.prems"(1) have "joinStringLiterals_loop r tokens ?h = (r', h')" by simp
    from "2.IH"(1)[OF True this] "2.prems"(2) ty show ?thesis by simp
  next
    case False
    with "2.prems"(1) have l: "joinStringLiterals_loop (r @ [t]) tokens h = (r', h')" by auto
    have "no_adjacent_strings (map (\<lambda>a. Type (h a)) (r @ [t]))"
      using False "2.prems"(2) by (auto simp: no_adjacent_strings_snoc last_map)
    from "2.IH"(2)[OF False l this] show ?thesis .
  qed
qed

lemma join_loop_fixed:
  "no_adjacent_strings (map (\<lambda>a. Type (h a)) (r @ ts)) \<Longrightarrow>
     joinStringLiterals_loop r ts h = (r @ ts, h)"
proof (induction ts arbitrary: r)
  case Nil
  then show ?case by simp
next
  case (Cons t ts)
  have "no_adjacent_strings (map (\<lambda>a. Type (h a)) ((r @ [t]) @ ts))" using Cons.prems by simp
  from Cons.IH[OF this] have l: "joinStringLiterals_loop (r @ [t]) ts h = (r @ t # ts, h)" by simp
  have "no_adjacent_strings (map (\<lambda>a. Type (h a)) (r @ [t]))"
    using no_adjacent_strings_prefix[of "map (\<lambda>a. Type (h a)) (r @ [t])" "map (\<lambda>a. Type (h a)) ts"]
      Cons.prems by simp
  then have "\<not> (r \<noteq> [] \<and> Type (h (last r)) = StringLiteral \<and> Type (h t) = StringLiteral)"
    by (auto simp: no_adjacent_strings_snoc last_map)
  with l show ?case by auto
qed


text \<open>Claim C8. \<^verbatim>\<open>FinishTokenize\<close> is idempotent: run on its own result (the list and the
  heap it left), it returns that list and that heap unchanged.\<close>

theorem FinishTokenize_idempotent:
  "FinishTokenize (fst (FinishTokenize x h)) (snd (FinishTokenize x h)) = FinishTokenize x h"
proof -
  obtain r' h' where f: "FinishTokenize x h = (r', h')" by (cases "FinishTokenize x h")
  then have l: "joinStringLiterals_loop [] (stripNewLineTokens h [] x) h = (r', h')"
    by (simp add: FinishTokenize_def joinStringLiterals_def)
  have ty: "Type (h' a) = Type (h a)" for a by (rule join_loop_types[OF l])
  have "set r' \<subseteq> set (stripNewLineTokens h [] x)" using join_loop_set[OF l] by simp
  then have "\<forall>a \<in> set r'. Type (h' a) \<noteq> Byte newline"
    by (auto simp: stripNewLineTokens_eq ty)
  then have strip: "stripNewLineTokens h' [] r' = r'"
    by (simp add: stripNewLineTokens_eq)
  have "no_adjacent_strings (map (\<lambda>a. Type (h' a)) ([] @ r'))"
    using join_loop_no_adjacent[OF l] by simp
  from join_loop_fixed[OF this] have "joinStringLiterals_loop [] r' h' = (r', h')" by simp
  with strip have "FinishTokenize r' h' = (r', h')"
    by (simp add: FinishTokenize_def joinStringLiterals_def)
  with f show ?thesis by simp
qed

section \<open>The preprocessor (package preprocess)\<close>

subsection \<open>Tokens and errors\<close>

text \<open>The token type of package \<^verbatim>\<open>preprocess\<close>. Its declaration is not part of the
  sources; the fields are the ones the preprocessor reads and writes. A type is a byte
  (\<^verbatim>\<open>'\n'\<close>, \<^verbatim>\<open>'#'\<close>, \<^verbatim>\<open>'('\<close>, ...) or a named constant; \<open>OtherType\<close> stands for the named
  constants the preprocessor never mentions. \<^verbatim>\<open>ExpandedFrom\<close> is a Go map used as a set;
  a \<^verbatim>\<open>nil\<close> map reads as the empty set.\<close>

datatype PPTokenType =
    PPByte char
  | Identifier
  | PPHeaderName
  | Param
  | EOF
  | PPStringLiteral
  | OtherType string

record pptoken =
  ppType :: PPTokenType
  Val :: string
  ppAdjacent :: bool
  ExpandedFrom :: "string set"
  ParamIndex :: int
  ParamHash :: bool

text \<open>\<^verbatim>\<open>&Token{Type: ty}\<close>: every other field has its zero value.\<close>

definition mk_pptoken :: "PPTokenType \<Rightarrow> pptoken" where
  "mk_pptoken ty =
     \<lparr>ppType = ty, Val = [], ppAdjacent = False, ExpandedFrom = {}, ParamIndex = 0,
      ParamHash = False\<rparr>"

text \<open>The errors of the preprocessor, one constructor for each message; \<open>Panic\<close> is a
  run-time panic of Go (an index out of range, a nil pointer, \<^verbatim>\<open>panic("not reached")\<close>).
  \<open>ErrorDirective\<close> carries the tokens of the \<^verbatim>\<open>#error\<close> line, whose \<^verbatim>\<open>String()\<close> the
  message joins.\<close>

datatype pperror =
    FileNotFound string                          \<comment> \<open>\<^verbatim>\<open>preprocess: file not found: %s\<close>\<close>
  | ExpectedBut "PPTokenType list" PPTokenType   \<comment> \<open>\<^verbatim>\<open>preprocess: expected %s but %s\<close>\<close>
  | HashNotFollowedByParam         \<comment> \<open>\<^verbatim>\<open>'#' is not followed by a macro parameter\<close>\<close>
  | RecursiveInclude string                      \<comment> \<open>\<^verbatim>\<open>preprocess: recursive #include: %s\<close>\<close>
  | NotImplemented string                        \<comment> \<open>\<^verbatim>\<open>preprocess: #%s is not implemented\<close>\<close>
  | ErrorDirective "pptoken list"                \<comment> \<open>\<^verbatim>\<open>preprocess: #error ...\<close>\<close>
  | InvalidDirective string         \<comment> \<open>\<^verbatim>\<open>preprocess: invalid preprocessing directive %s\<close>\<close>
  | MacroError string                            \<comment> \<open>an error of \<^verbatim>\<open>macro.apply\<close>\<close>
  | Panic string

subsection \<open>The token readers\<close>

text \<open>\<^verbatim>\<open>ppTokenBufReader\<close> and \<^verbatim>\<open>ppTokenSliceReader\<close>: a token list and a position. The
  position starts at 0 and only \<^verbatim>\<open>NextPPToken\<close> moves it, so it is a natural number.
  The methods return the token, the error (there is none) and the reader as they leave
  it.\<close>

record ppTokenBufReader =
  buf_tokens :: "pptoken list"
  buf_pos :: nat

definition buf_NextPPToken :: "ppTokenBufReader \<Rightarrow> pperror + (pptoken \<times> ppTokenBufReader)" where
  "buf_NextPPToken t =
     (if buf_pos t \<ge> length (buf_tokens t) then Inr (mk_pptoken EOF, t)
      else Inr (buf_tokens t ! buf_pos t, t\<lparr>buf_pos := buf_pos t + 1\<rparr>))"

definition buf_peekPPToken :: "ppTokenBufReader \<Rightarrow> pperror + pptoken" where
  "buf_peekPPToken t =
     (if buf_pos t \<ge> length (buf_tokens t) then Inr (mk_pptoken EOF)
      else Inr (buf_tokens t ! buf_pos t))"

text \<open>\<^verbatim>\<open>AtLineHead\<close> indexes the list at \<^verbatim>\<open>pos-1\<close>; past the end that is a panic.\<close>

definition buf_AtLineHead :: "ppTokenBufReader \<Rightarrow> pperror + bool" where
  "buf_AtLineHead t =
     (if buf_pos t = 0 then Inr True
      else if buf_pos t - 1 \<ge> length (buf_tokens t) then Inl (Panic ''index out of range'')
      else if ppType (buf_tokens t ! (buf_pos t - 1)) = PPByte newline then Inr True
      else Inr False)"

record ppTokenSliceReader =
  slice_tokens :: "pptoken list"
  slice_pos :: nat

definition slice_NextPPToken ::
  "ppTokenSliceReader \<Rightarrow> pperror + (pptoken \<times> ppTokenSliceReader)" where
  "slice_NextPPToken t =
     (if length (slice_tokens t) \<le> slice_pos t then Inr (mk_pptoken EOF, t)
      else Inr (slice_tokens t ! slice_pos t, t\<lparr>slice_pos := slice_pos t + 1\<rparr>))"

definition slice_peekPPToken :: "ppTokenSliceReader \<Rightarrow> pperror + pptoken" where
  "slice_peekPPToken t =
     (if length (slice_tokens t) \<le> slice_pos t then Inr (mk_pptoken EOF)
      else Inr (slice_tokens t ! slice_pos t))"

text \<open>Claim C9. A reader whose position is at or past the end of its list returns the
  \<^verbatim>\<open>EOF\<close> token and no error and stays as it is; so does every later call (any number of
  calls, one after the other, return \<^verbatim>\<open>EOF\<close> and leave the reader unchanged).\<close>

theorem readers_EOF_at_end:
  "(length (buf_tokens b) \<le> buf_pos b \<longrightarrow>
      buf_NextPPToken b = Inr (mk_pptoken EOF, b)
      \<and> ((\<lambda>r. snd (projr (buf_NextPPToken r))) ^^ n) b = b
      \<and> buf_NextPPToken (((\<lambda>r. snd (projr (buf_NextPPToken r))) ^^ n) b) = Inr (mk_pptoken EOF, b))
   \<and> (length (slice_tokens s) \<le> slice_pos s \<longrightarrow>
      slice_NextPPToken s = Inr (mk_pptoken EOF, s)
      \<and> ((\<lambda>r. snd (projr (slice_NextPPToken r))) ^^ n) s = s
      \<and> slice_NextPPToken (((\<lambda>r. snd (projr (slice_NextPPToken r))) ^^ n) s)
          = Inr (mk_pptoken EOF, s))"
proof (intro conjI impI)
  assume e: "length (buf_tokens b) \<le> buf_pos b"
  then show 1: "buf_NextPPToken b = Inr (mk_pptoken EOF, b)"
    by (simp add: buf_NextPPToken_def)
  show 2: "((\<lambda>r. snd (projr (buf_NextPPToken r))) ^^ n) b = b"
    by (induction n) (simp_all add: 1)
  show "buf_NextPPToken (((\<lambda>r. snd (projr (buf_NextPPToken r))) ^^ n) b) = Inr (mk_pptoken EOF, b)"
    by (simp only: 2 1)
next
  assume e: "length (slice_tokens s) \<le> slice_pos s"
  then show 1: "slice_NextPPToken s = Inr (mk_pptoken EOF, s)"
    by (simp add: slice_NextPPToken_def)
  show 2: "((\<lambda>r. snd (projr (slice_NextPPToken r))) ^^ n) s = s"
    by (induction n) (simp_all add: 1)
  show "slice_NextPPToken (((\<lambda>r. snd (projr (slice_NextPPToken r))) ^^ n) s)
          = Inr (mk_pptoken EOF, s)"
    by (simp only: 2 1)
qed

theorem readers_EOF_at_end_witness:
  "length (buf_tokens \<lparr>buf_tokens = [mk_pptoken Identifier], buf_pos = 1\<rparr>)
      \<le> buf_pos \<lparr>buf_tokens = [mk_pptoken Identifier], buf_pos = 1\<rparr>
   \<and> buf_NextPPToken \<lparr>buf_tokens = [mk_pptoken Identifier], buf_pos = 1\<rparr>
       = Inr (mk_pptoken EOF, \<lparr>buf_tokens = [mk_pptoken Identifier], buf_pos = 1\<rparr>)
   \<and> length (slice_tokens \<lparr>slice_tokens = [], slice_pos = 0\<rparr>)
      \<le> slice_pos \<lparr>slice_tokens = [], slice_pos = 0\<rparr>
   \<and> slice_NextPPToken \<lparr>slice_tokens = [], slice_pos = 0\<rparr>
       = Inr (mk_pptoken EOF, \<lparr>slice_tokens = [], slice_pos = 0\<rparr>)"
  using readers_EOF_at_end
    [of "\<lparr>buf_tokens = [mk_pptoken Identifier], buf_pos = 1\<rparr>" 0
        "\<lparr>slice_tokens = [], slice_pos = 0\<rparr>"]
  by simp

subsection \<open>Macros and their parameters\<close>

text \<open>\<^verbatim>\<open>type macro struct\<close>, as the \<^verbatim>\<open>#define\<close> case builds it: the name, the replacement
  list and the number of parameters (-1 for an object-like macro).\<close>

record macro =
  macro_name :: string
  macro_tokens :: "pptoken list"
  macro_paramsLen :: int

text \<open>\<^verbatim>\<open>macro.apply\<close> is not part of the sources, so the preprocessor takes it as a
  parameter. \<open>app m toks pos ef\<close> is the call \<^verbatim>\<open>m.apply(src, ef)\<close> on a reader over the
  tokens \<open>toks\<close> at position \<open>pos\<close>: it returns an error, or the tokens of the expansion
  and the position at which it leaves the reader; \<open>None\<close> is a call that does not
  return.\<close>

type_synonym apply_fn =
  "macro \<Rightarrow> pptoken list \<Rightarrow> nat \<Rightarrow> string set \<Rightarrow> (pperror + pptoken list \<times> nat) option"

text \<open>Modelled from the spec: \<^verbatim>\<open>nextExpected\<close> is not part of the sources. As its calls
  use it, it reads the next token of the reader and fails unless the type of that token
  is one of the expected types.\<close>

definition nextExpected ::
  "ppTokenBufReader \<Rightarrow> PPTokenType list \<Rightarrow> pperror + (pptoken \<times> ppTokenBufReader)" where
  "nextExpected src expected =
     (case buf_NextPPToken src of
        Inl err \<Rightarrow> Inl err
      | Inr (t, src') \<Rightarrow>
          if ppType t \<in> set expected then Inr (t, src')
          else Inl (ExpectedBut expected (ppType t)))"

lemma nextExpected_advances:
  assumes "nextExpected r tys = Inr (t, r')" and "EOF \<notin> set tys"
  shows "buf_pos r < length (buf_tokens r) \<and> r' = r\<lparr>buf_pos := buf_pos r + 1\<rparr>
         \<and> t = buf_tokens r ! buf_pos r \<and> ppType t \<in> set tys"
  using assms
  by (auto simp: nextExpected_def buf_NextPPToken_def mk_pptoken_def split: if_splits)

text \<open>The loop over the parameter names of a function-like macro: an identifier, then
  \<^verbatim>\<open>)\<close> (the end) or \<^verbatim>\<open>,\<close> (another round). Every round reads two tokens and fails
  at the end of the list, so the loop ends.\<close>

function readParams ::
  "ppTokenBufReader \<Rightarrow> string list \<Rightarrow> pperror + (string list \<times> ppTokenBufReader)" where
  "readParams src params =
     (case nextExpected src [Identifier] of
        Inl err \<Rightarrow> Inl err
      | Inr (t, src1) \<Rightarrow>
          (case nextExpected src1 [PPByte (CHR '')''), PPByte (CHR '','')] of
             Inl err \<Rightarrow> Inl err
           | Inr (t2, src2) \<Rightarrow>
               if ppType t2 = PPByte (CHR '')'') then Inr (params @ [Val t], src2)
               else readParams src2 (params @ [Val t])))"
  by pat_completeness auto
termination
proof (relation "measure (\<lambda>(src, params). length (buf_tokens src) - buf_pos src)", goal_cases)
  case 1
  show ?case by simp
next
  case (2 src params x t src1 y t2 src2)
  from 2(1,2) have a: "nextExpected src [Identifier] = Inr (t, src1)" by simp
  from 2(3,4) have b: "nextExpected src1 [PPByte (CHR '')''), PPByte (CHR '','')] = Inr (t2, src2)"
    by simp
  from nextExpected_advances[OF a] nextExpected_advances[OF b] show ?case by auto
qed

declare readParams.simps [simp del]

text \<open>The index of a parameter name (the first match), or -1.\<close>

fun paramIndex :: "string list \<Rightarrow> string \<Rightarrow> int" where
  "paramIndex [] v = - 1"
| "paramIndex (p # params) v =
     (if v = p then 0
      else (let i = paramIndex params v in if i = - 1 then - 1 else i + 1))"

text \<open>The loop that replaces parameter names in the body of a function-like macro by
  \<^verbatim>\<open>Param\<close> tokens; a \<^verbatim>\<open>#\<close> takes the token after it, which must name a parameter.\<close>

fun replaceParams :: "string list \<Rightarrow> pptoken list \<Rightarrow> pperror + pptoken list" where
  "replaceParams params [] = Inr []"
| "replaceParams params (t # ts) =
     (if ppType t = PPByte (CHR ''#'') then
        (case ts of
           [] \<Rightarrow> Inl HashNotFollowedByParam
         | t2 # ts2 \<Rightarrow>
             if ppType t2 \<noteq> Identifier then Inl HashNotFollowedByParam
             else if paramIndex params (Val t2) = - 1 then Inl HashNotFollowedByParam
             else (case replaceParams params ts2 of
                     Inl err \<Rightarrow> Inl err
                   | Inr ts' \<Rightarrow>
                       Inr ((mk_pptoken Param)
                              \<lparr>ParamIndex := paramIndex params (Val t2), ParamHash := True\<rparr> # ts')))
      else if ppType t = Identifier then
        (case replaceParams params ts of
           Inl err \<Rightarrow> Inl err
         | Inr ts' \<Rightarrow>
             if paramIndex params (Val t) \<noteq> - 1
             then Inr ((mk_pptoken Param)\<lparr>ParamIndex := paramIndex params (Val t)\<rparr> # ts')
             else Inr (t # ts'))
      else (case replaceParams params ts of
              Inl err \<Rightarrow> Inl err
            | Inr ts' \<Rightarrow> Inr (t # ts')))"

text \<open>The loop that collects the tokens of a line: \<^verbatim>\<open>NextPPToken\<close> until a new-line
  token (the body of \<^verbatim>\<open>#define\<close>, the message of \<^verbatim>\<open>#error\<close>). At the end of the list
  the reader returns \<^verbatim>\<open>EOF\<close> for ever, so the loop need not end: \<open>None\<close>.\<close>

partial_function (option) readLine ::
  "ppTokenBufReader \<Rightarrow> pptoken list \<Rightarrow> (pperror + pptoken list \<times> ppTokenBufReader) option" where
  "readLine src ts =
     (case buf_NextPPToken src of
        Inl err \<Rightarrow> Some (Inl err)
      | Inr (t, src') \<Rightarrow>
          if ppType t = PPByte newline then Some (Inr (ts, src'))
          else readLine src' (ts @ [t]))"

declare readLine.simps [code]

text \<open>The parameter list of \<^verbatim>\<open>#define\<close>. \<open>src\<close> is the reader after the name of the macro
  and \<open>t\<close> the token it would read next: a \<^verbatim>\<open>(\<close> with \<^verbatim>\<open>Adjacent\<close> set opens the
  parameters of a function-like macro; anything else leaves \<^verbatim>\<open>paramsLen\<close> at -1.\<close>

definition defineParams ::
  "ppTokenBufReader \<Rightarrow> pptoken \<Rightarrow> pperror + (int \<times> string list \<times> ppTokenBufReader)" where
  "defineParams src t =
     (if ppType t = PPByte (CHR ''('') \<and> ppAdjacent t then
        (case nextExpected src [PPByte (CHR ''('')] of
           Inl err \<Rightarrow> Inl (Panic ''not reached'')
         | Inr (t1, src1) \<Rightarrow>
             (case buf_peekPPToken src1 of
                Inl err \<Rightarrow> Inl err
              | Inr t2 \<Rightarrow>
                  if ppType t2 = PPByte (CHR '')'') then
                    (case nextExpected src1 [PPByte (CHR '')'')] of
                       Inl err \<Rightarrow> Inl (Panic ''not reached'')
                     | Inr (t3, src2) \<Rightarrow> Inr (0, [], src2))
                  else
                    (case readParams src1 [] of
                       Inl err \<Rightarrow> Inl err
                     | Inr (params, src2) \<Rightarrow> Inr (int (length params), params, src2))))
      else Inr (- 1, [], src))"

text \<open>The \<^verbatim>\<open>define\<close> case of \<^verbatim>\<open>next\<close>, up to the macro it stores: the name, the
  parameters, the body up to the new-line token, and the parameters replaced in the
  body of a function-like macro.\<close>

definition parseDefine :: "ppTokenBufReader \<Rightarrow> (pperror + macro \<times> ppTokenBufReader) option" where
  "parseDefine src =
     (case nextExpected src [Identifier] of
        Inl err \<Rightarrow> Some (Inl err)
      | Inr (t, src1) \<Rightarrow>
          (case buf_peekPPToken src1 of
             Inl err \<Rightarrow> Some (Inl err)
           | Inr t2 \<Rightarrow>
               (case defineParams src1 t2 of
                  Inl err \<Rightarrow> Some (Inl err)
                | Inr (paramsLen, params, src2) \<Rightarrow>
                    (case readLine src2 [] of
                       None \<Rightarrow> None
                     | Some (Inl err) \<Rightarrow> Some (Inl err)
                     | Some (Inr (ts, src3)) \<Rightarrow>
                         (case (if paramsLen \<ge> 0 then replaceParams params ts else Inr ts) of
                            Inl err \<Rightarrow> Some (Inl err)
                          | Inr ts' \<Rightarrow>
                              Some (Inr (\<lparr>macro_name = Val t, macro_tokens = ts',
                                          macro_paramsLen = paramsLen\<rparr>, src3)))))))"

subsection \<open>The preprocessor state\<close>

text \<open>\<^verbatim>\<open>type preprocessor struct\<close>. \<^verbatim>\<open>src\<close> is a pointer that is \<^verbatim>\<open>nil\<close> until the first
  call of \<^verbatim>\<open>NextPPToken\<close>; the reader it points to belongs to this preprocessor alone, so
  the state holds the reader. \<^verbatim>\<open>tokens\<close> is never written. \<^verbatim>\<open>visited\<close> is a map shared
  with the preprocessors of the included files: a nested preprocessor starts from the
  set of its creator and the creator continues with the set the nested one leaves.\<close>

record preprocessor =
  p_src :: "ppTokenBufReader option"
  p_path :: string
  p_tokens :: "string \<rightharpoonup> pptoken list"
  p_sub :: "pptoken list"
  p_visited :: "string set"
  p_macros :: "string \<rightharpoonup> macro"

text \<open>\<^verbatim>\<open>preprocessImpl\<close>: the new preprocessor gets the path, the token map and the
  visited set, and a fresh, empty macro table.\<close>

definition preprocessImpl ::
  "string \<Rightarrow> (string \<rightharpoonup> pptoken list) \<Rightarrow> string set \<Rightarrow> preprocessor" where
  "preprocessImpl path tokens visited =
     \<lparr>p_src = None, p_path = path, p_tokens = tokens, p_sub = [], p_visited = visited,
      p_macros = Map.empty\<rparr>"

subsection \<open>\<^verbatim>\<open>preprocessor.next\<close>\<close>

text \<open>The \<^verbatim>\<open>include\<close> case. \<open>drain\<close> stands for the loop that calls \<^verbatim>\<open>NextPPToken\<close> of
  the nested preprocessor until \<^verbatim>\<open>EOF\<close>: it returns an error, or the tokens and the nested
  preprocessor as the loop leaves it. \<open>src\<close> is the reader after \<^verbatim>\<open>#include\<close>.\<close>

definition pp_include ::
  "(preprocessor \<Rightarrow> (pperror + pptoken list \<times> preprocessor) option) \<Rightarrow> preprocessor
     \<Rightarrow> ppTokenBufReader \<Rightarrow> (pperror + pptoken option \<times> preprocessor) option" where
  "pp_include drain p src =
     (case nextExpected src [PPHeaderName] of
        Inl err \<Rightarrow> Some (Inl err)
      | Inr (t, src') \<Rightarrow>
          (let path = Val t in
           if path \<in> p_visited p then Some (Inl (RecursiveInclude path))
           else
             Option.bind
               (drain (preprocessImpl path (p_tokens p) (insert path (p_visited p))))
               (\<lambda>res. case res of
                  Inl err \<Rightarrow> Some (Inl err)
                | Inr (ts, q) \<Rightarrow>
                    Some (Inr (None, p\<lparr>p_src := Some src', p_sub := ts,
                                        p_visited := p_visited q\<rparr>)))))"

text \<open>The directives: \<open>src\<close> is the reader after a \<^verbatim>\<open>#\<close> at the head of a line. The
  result is the pair \<^verbatim>\<open>(token, error)\<close> of \<^verbatim>\<open>next\<close> with the preprocessor as the call
  leaves it; \<^verbatim>\<open>nil, nil\<close> is \<open>None\<close> for the token.\<close>

definition pp_directive ::
  "(preprocessor \<Rightarrow> (pperror + pptoken list \<times> preprocessor) option) \<Rightarrow> preprocessor
     \<Rightarrow> ppTokenBufReader \<Rightarrow> (pperror + pptoken option \<times> preprocessor) option" where
  "pp_directive drain p src =
     (case buf_NextPPToken src of
        Inl err \<Rightarrow> Some (Inl err)
      | Inr (t, src1) \<Rightarrow>
          if ppType t = PPByte newline then Some (Inr (Some t, p\<lparr>p_src := Some src1\<rparr>))
          else if ppType t \<noteq> Identifier then Some (Inl (ExpectedBut [Identifier] (ppType t)))
          else if Val t = ''define'' then
            (case parseDefine src1 of
               None \<Rightarrow> None
             | Some (Inl err) \<Rightarrow> Some (Inl err)
             | Some (Inr (m, src2)) \<Rightarrow>
                 Some (Inr (None, p\<lparr>p_src := Some src2,
                                     p_macros := (p_macros p)(macro_name m \<mapsto> m)\<rparr>)))
          else if Val t = ''undef'' then
            (case nextExpected src1 [Identifier] of
               Inl err \<Rightarrow> Some (Inl err)
             | Inr (t2, src2) \<Rightarrow>
                 (case nextExpected src2 [PPByte newline] of
                    Inl err \<Rightarrow> Some (Inl err)
                  | Inr (t3, src3) \<Rightarrow>
                      Some (Inr (None, p\<lparr>p_src := Some src3,
                                          p_macros := (p_macros p)(Val t2 := None)\<rparr>))))
          else if Val t = ''include'' then pp_include drain p src1
          else if Val t = ''if'' then Some (Inl (NotImplemented ''if''))
          else if Val t = ''ifdef'' then Some (Inl (NotImplemented ''ifdef''))
          else if Val t = ''ifndef'' then Some (Inl (NotImplemented ''ifndef''))
          else if Val t = ''else'' then Some (Inl (NotImplemented ''else''))
          else if Val t = ''endif'' then Some (Inl (NotImplemented ''line''))
          else if Val t = ''line'' then Some (Inl (NotImplemented ''line''))
          else if Val t = ''elif'' then Some (Inl (NotImplemented ''elif''))
          else if Val t = ''pragma'' then Some (Inl (NotImplemented ''pragma''))
          else if Val t = ''error'' then
            (case readLine src1 [] of
               None \<Rightarrow> None
             | Some (Inl err) \<Rightarrow> Some (Inl err)
             | Some (Inr (ts, src2)) \<Rightarrow> Some (Inl (ErrorDirective ts)))
          else Some (Inl (InvalidDirective (Val t))))"

text \<open>\<^verbatim>\<open>next\<close>. With a pending token in \<^verbatim>\<open>sub\<close> it takes the first one: a token that is
  no identifier, names no macro, or has the macro's name in \<^verbatim>\<open>ExpandedFrom\<close> is returned;
  otherwise \<^verbatim>\<open>apply\<close> reads its arguments from the rest of \<^verbatim>\<open>sub\<close> and the expansion goes
  in front of what it left. With \<^verbatim>\<open>sub\<close> empty it reads the source.\<close>

definition pp_next ::
  "apply_fn \<Rightarrow> (preprocessor \<Rightarrow> (pperror + pptoken list \<times> preprocessor) option) \<Rightarrow> preprocessor
     \<Rightarrow> (pperror + pptoken option \<times> preprocessor) option" where
  "pp_next app drain p0 =
     (if length (p_sub p0) > 0 then
        (let t = p_sub p0 ! 0;
             p = p0\<lparr>p_sub := drop 1 (p_sub p0)\<rparr>
         in
         if ppType t \<noteq> Identifier then Some (Inr (Some t, p))
         else
           (case p_macros p (Val t) of
              None \<Rightarrow> Some (Inr (Some t, p))
            | Some m \<Rightarrow>
                if macro_name m \<in> ExpandedFrom t then Some (Inr (Some t, p))
                else
                  Option.bind (app m (p_sub p) 0 (ExpandedFrom t))
                    (\<lambda>res. case res of
                       Inl err \<Rightarrow> Some (Inl err)
                     | Inr (tks, pos) \<Rightarrow>
                         if pos > length (p_sub p)
                         then Some (Inl (Panic ''slice bounds out of range''))
                         else Some (Inr (None, p\<lparr>p_sub := tks @ drop pos (p_sub p)\<rparr>)))))
      else
        (case p_src p0 of
           None \<Rightarrow> Some (Inl (Panic ''nil pointer dereference''))
         | Some src \<Rightarrow>
             (case buf_AtLineHead src of
                Inl err \<Rightarrow> Some (Inl err)
              | Inr wasLineHead \<Rightarrow>
                  (case buf_NextPPToken src of
                     Inl err \<Rightarrow> Some (Inl err)
                   | Inr (t, src1) \<Rightarrow>
                       if ppType t = Identifier then
                         (case p_macros p0 (Val t) of
                            None \<Rightarrow> Some (Inr (Some t, p0\<lparr>p_src := Some src1\<rparr>))
                          | Some m \<Rightarrow>
                              Option.bind (app m (buf_tokens src1) (buf_pos src1) {})
                                (\<lambda>res. case res of
                                   Inl err \<Rightarrow> Some (Inl err)
                                 | Inr (tks, pos) \<Rightarrow>
                                     Some (Inr (None, p0\<lparr>p_src := Some (src1\<lparr>buf_pos := pos\<rparr>),
                                                         p_sub := tks\<rparr>))))
                       else if ppType t = PPByte (CHR ''#'') then
                         (if \<not> wasLineHead then Some (Inr (Some t, p0\<lparr>p_src := Some src1\<rparr>))
                          else pp_directive drain p0 src1)
                       else Some (Inr (Some t, p0\<lparr>p_src := Some src1\<rparr>))))))"

text \<open>\<^verbatim>\<open>next\<close> calls the drain of the nested preprocessor at most once, so it is monotone
  in it: the recursion through \<^verbatim>\<open>#include\<close> has a least fixed point.\<close>

lemma pp_include_mono:
  assumes "\<And>q. mono_option (\<lambda>f. D f q)"
  shows "mono_option (\<lambda>f. pp_include (D f) p src)"
  unfolding pp_include_def Let_def
  by (cases "nextExpected src [PPHeaderName]")
     (auto intro!: partial_function_mono assms split: prod.splits)

lemma pp_directive_mono:
  assumes "\<And>q. mono_option (\<lambda>f. D f q)"
  shows "mono_option (\<lambda>f. pp_directive (D f) p src)"
  unfolding pp_directive_def
  by (cases "buf_NextPPToken src")
     (auto intro!: partial_function_mono pp_include_mono assms split: prod.splits)

lemma pp_next_mono [partial_function_mono]:
  assumes "\<And>q. mono_option (\<lambda>f. D f q)"
  shows "mono_option (\<lambda>f. pp_next app (D f) p)"
proof (cases "length (p_sub p) > 0")
  case True
  then have "pp_next app (D f) p = pp_next app (D g) p" for f g
    by (simp add: pp_next_def)
  then have "(\<lambda>f. pp_next app (D f) p) = (\<lambda>f. pp_next app (D undefined) p)" by blast
  then show ?thesis by (simp add: partial_function_mono)
next
  case False
  show ?thesis
  proof (cases "p_src p")
    case None
    with False show ?thesis by (simp add: pp_next_def partial_function_mono)
  next
    case (Some src)
    show ?thesis
    proof (cases "buf_AtLineHead src")
      case (Inl err)
      with False Some show ?thesis by (simp add: pp_next_def partial_function_mono)
    next
      case (Inr wasLineHead)
      obtain t src1 where n: "buf_NextPPToken src = Inr (t, src1)"
        by (cases "buf_NextPPToken src") (auto simp: buf_NextPPToken_def split: if_splits)
      show ?thesis
        unfolding pp_next_def using False Some Inr n
        by (auto intro!: partial_function_mono pp_directive_mono assms)
    qed
  qed
qed

subsection \<open>\<^verbatim>\<open>preprocessor.NextPPToken\<close> and the drain of a nested preprocessor\<close>

text \<open>\<^verbatim>\<open>NextPPToken\<close> calls \<^verbatim>\<open>next\<close>, whose \<^verbatim>\<open>include\<close> case drains a nested preprocessor
  through \<^verbatim>\<open>NextPPToken\<close>: the two loops are mutually recursive and neither need end. They
  are one partial function on the two kinds of call; \<open>None\<close> is a call that does not
  return. \<open>CallNext p\<close> is \<^verbatim>\<open>p.NextPPToken()\<close>; \<open>CallDrain q ts\<close> is the loop of the \<^verbatim>\<open>include\<close>
  case on the nested preprocessor \<open>q\<close>, with \<open>ts\<close> the tokens appended so far. A result
  is an error, or the last token read, the tokens appended, and the preprocessor.\<close>

datatype pp_call = CallNext preprocessor | CallDrain preprocessor "pptoken list"

partial_function (option) pp_run ::
  "apply_fn \<Rightarrow> pp_call \<Rightarrow> (pperror + pptoken \<times> pptoken list \<times> preprocessor) option" where
  "pp_run app c =
     (case c of
        CallNext p0 \<Rightarrow>
          (case (if p_src p0 = None then
                   (case p_tokens p0 (p_path p0) of
                      None \<Rightarrow> Inl (FileNotFound (p_path p0))
                    | Some ts \<Rightarrow> Inr (p0\<lparr>p_src := Some \<lparr>buf_tokens = ts, buf_pos = 0\<rparr>\<rparr>))
                 else Inr p0) of
             Inl err \<Rightarrow> Some (Inl err)
           | Inr p \<Rightarrow>
               Option.bind
                 (pp_next app
                    (\<lambda>q. Option.bind (pp_run app (CallDrain q []))
                            (\<lambda>res. case res of
                               Inl err \<Rightarrow> Some (Inl err)
                             | Inr (t, ts, q') \<Rightarrow> Some (Inr (ts, q'))))
                    p)
                 (\<lambda>res. case res of
                    Inl err \<Rightarrow> Some (Inl err)
                  | Inr (None, p') \<Rightarrow> pp_run app (CallNext p')
                  | Inr (Some t, p') \<Rightarrow>
                      if ppType t = PPByte newline then pp_run app (CallNext p')
                      else Some (Inr (t, [], p'))))
      | CallDrain q ts \<Rightarrow>
          Option.bind (pp_run app (CallNext q))
            (\<lambda>res. case res of
               Inl err \<Rightarrow> Some (Inl err)
             | Inr (t, ts', q') \<Rightarrow>
                 if ppType t = EOF then Some (Inr (t, ts, q'))
                 else pp_run app (CallDrain q' (ts @ [t]))))"

declare pp_run.simps [code]

definition NextPPToken :: "apply_fn \<Rightarrow> preprocessor \<Rightarrow> (pperror + pptoken \<times> preprocessor) option" where
  "NextPPToken app p =
     Option.bind (pp_run app (CallNext p))
       (\<lambda>res. case res of
          Inl err \<Rightarrow> Some (Inl err)
        | Inr (t, ts, p') \<Rightarrow> Some (Inr (t, p')))"

definition pp_drain ::
  "apply_fn \<Rightarrow> preprocessor \<Rightarrow> pptoken list \<Rightarrow> (pperror + pptoken list \<times> preprocessor) option" where
  "pp_drain app q ts =
     Option.bind (pp_run app (CallDrain q ts))
       (\<lambda>res. case res of
          Inl err \<Rightarrow> Some (Inl err)
        | Inr (t, ts', q') \<Rightarrow> Some (Inr (ts', q')))"

text \<open>The first statement of \<^verbatim>\<open>NextPPToken\<close>: a \<^verbatim>\<open>nil\<close> source is set to a reader over the
  tokens of the path, which must be in the map.\<close>

definition pp_init :: "preprocessor \<Rightarrow> pperror + preprocessor" where
  "pp_init p =
     (if p_src p = None then
        (case p_tokens p (p_path p) of
           None \<Rightarrow> Inl (FileNotFound (p_path p))
         | Some ts \<Rightarrow> Inr (p\<lparr>p_src := Some \<lparr>buf_tokens = ts, buf_pos = 0\<rparr>\<rparr>))
      else Inr p)"

text \<open>The two loops as the code has them. \<^verbatim>\<open>NextPPToken\<close>: after the first statement, call
  \<^verbatim>\<open>next\<close> until it returns an error or a token that is no new-line token. The drain:
  call \<^verbatim>\<open>NextPPToken\<close> until it returns an error or \<^verbatim>\<open>EOF\<close>.\<close>

lemma NextPPToken_unfold:
  "NextPPToken app p0 =
     (case pp_init p0 of
        Inl err \<Rightarrow> Some (Inl err)
      | Inr p \<Rightarrow>
          Option.bind (pp_next app (\<lambda>q. pp_drain app q []) p)
            (\<lambda>res. case res of
               Inl err \<Rightarrow> Some (Inl err)
             | Inr (None, p') \<Rightarrow> NextPPToken app p'
             | Inr (Some t, p') \<Rightarrow>
                 if ppType t = PPByte newline then NextPPToken app p'
                 else Some (Inr (t, p'))))"
proof -
  have d: "(\<lambda>q. Option.bind (pp_run app (CallDrain q []))
                            (\<lambda>res. case res of
                               Inl err \<Rightarrow> Some (Inl err)
                             | Inr (t, ts, q') \<Rightarrow> Some (Inr (ts, q'))))
           = (\<lambda>q. pp_drain app q [])"
    by (simp add: pp_drain_def)
  show ?thesis
    unfolding NextPPToken_def
    apply (subst pp_run.simps)
    apply (simp only: d pp_call.case pp_init_def[symmetric])
    apply (cases "pp_init p0")
     apply simp
    apply (simp add: Option.bind_assoc)
    apply (rule Option.bind_cong[OF refl])
    apply (auto split: sum.splits option.splits prod.splits)
    done
qed

lemma pp_drain_unfold:
  "pp_drain app q ts =
     Option.bind (NextPPToken app q)
       (\<lambda>res. case res of
          Inl err \<Rightarrow> Some (Inl err)
        | Inr (t, q') \<Rightarrow>
            if ppType t = EOF then Some (Inr (ts, q'))
            else pp_drain app q' (ts @ [t]))"
  unfolding pp_drain_def NextPPToken_def
  apply (subst pp_run.simps)
  apply (simp add: Option.bind_assoc)
  apply (rule Option.bind_cong[OF refl])
  apply (auto split: sum.splits option.splits prod.splits)
  done

subsection \<open>\<^verbatim>\<open>Preprocess\<close>\<close>

text \<open>Modelled from the spec: \<^verbatim>\<open>stringConcatter\<close>, the reader \<^verbatim>\<open>Preprocess\<close> wraps around
  the preprocessor, is not part of the sources. By section 4.7 of the specification it
  passes on the tokens and the errors of the preprocessor and replaces every run of
  adjacent string literals by one string literal with the concatenated value.\<close>

fun concatStrings :: "pptoken list \<Rightarrow> pptoken list" where
  "concatStrings (a # b # ts) =
     (if ppType a = PPStringLiteral \<and> ppType b = PPStringLiteral
      then concatStrings (a\<lparr>Val := Val a @ Val b\<rparr> # ts)
      else a # concatStrings (b # ts))"
| "concatStrings ts = ts"

text \<open>\<^verbatim>\<open>Preprocess\<close> starts the preprocessor of the path with the visited set holding that
  path, and appends the tokens it reads until \<^verbatim>\<open>EOF\<close>; an error ends it.\<close>

definition Preprocess ::
  "apply_fn \<Rightarrow> string \<Rightarrow> (string \<rightharpoonup> pptoken list) \<Rightarrow> (pperror + pptoken list) option" where
  "Preprocess app path tokens =
     Option.bind (pp_drain app (preprocessImpl path tokens {path}) [])
       (\<lambda>res. case res of
          Inl err \<Rightarrow> Some (Inl err)
        | Inr (tks, p) \<Rightarrow> Some (Inr (concatStrings tks)))"

subsection \<open>Tokens and an \<^verbatim>\<open>apply\<close> for the examples\<close>

definition tk_hash :: pptoken where
  "tk_hash = mk_pptoken (PPByte (CHR ''#''))"

definition tk_nl :: pptoken where
  "tk_nl = mk_pptoken (PPByte newline)"

definition tk_ident :: "string \<Rightarrow> pptoken" where
  "tk_ident s = (mk_pptoken Identifier)\<lparr>Val := s\<rparr>"

definition tk_header :: "string \<Rightarrow> pptoken" where
  "tk_header s = (mk_pptoken PPHeaderName)\<lparr>Val := s\<rparr>"

text \<open>Modelled from the spec: \<^verbatim>\<open>macro.apply\<close> for an object-like macro (section 4.5 of the
  specification): the replacement list, each token with the caller's set and the name
  of the macro added to \<^verbatim>\<open>ExpandedFrom\<close>; the reader is not touched. Function-like
  macros are not modelled (an error). Only the examples use this instance; the theorems
  hold of every \<^verbatim>\<open>apply\<close>, or of every \<^verbatim>\<open>apply\<close> with the property they name.\<close>

definition apply_object :: apply_fn where
  "apply_object m toks pos ef =
     (if macro_paramsLen m = - 1
      then Some (Inr (map (\<lambda>t. t\<lparr>ExpandedFrom := ExpandedFrom t \<union> ef \<union> {macro_name m}\<rparr>)
                        (macro_tokens m), pos))
      else Some (Inl (MacroError ''function-like macro'')))"

subsection \<open>The painted-blue rule\<close>

lemma pp_init_idem: "pp_init p = Inr p' \<Longrightarrow> pp_init p' = Inr p'"
  by (auto simp: pp_init_def split: if_splits option.splits)

lemma pp_init_sub: "pp_init p = Inr p' \<Longrightarrow> p' = p\<lparr>p_src := p_src p'\<rparr>"
  by (auto simp: pp_init_def split: if_splits option.splits)

text \<open>Claim C3. When the first pending token of \<^verbatim>\<open>sub\<close> is an identifier that names a
  macro of the table and the name of that macro is in the token's \<^verbatim>\<open>ExpandedFrom\<close>, then
  \<^verbatim>\<open>next\<close> returns that token, unchanged, and only removes it from \<^verbatim>\<open>sub\<close>; so does
  \<^verbatim>\<open>NextPPToken\<close> (once its source is set). The result is the same for every \<^verbatim>\<open>apply\<close>,
  also for one that never returns: \<^verbatim>\<open>apply\<close> is not called.\<close>

theorem painted_blue_returned_unchanged:
  assumes "p_sub p = t # rest" and "ppType t = Identifier"
    and "p_macros p (Val t) = Some m" and "macro_name m \<in> ExpandedFrom t"
  shows "pp_next app drain p = Some (Inr (Some t, p\<lparr>p_sub := rest\<rparr>))
         \<and> pp_next (\<lambda>m toks pos ef. None) drain p = Some (Inr (Some t, p\<lparr>p_sub := rest\<rparr>))
         \<and> (\<forall>p'. pp_init p = Inr p' \<longrightarrow>
               NextPPToken app p = Some (Inr (t, p'\<lparr>p_sub := rest\<rparr>)))"
proof -
  have n: "pp_next a d q = Some (Inr (Some t, q\<lparr>p_sub := rest\<rparr>))"
    if "p_sub q = t # rest" "p_macros q = p_macros p" for a d q
    using that assms by (simp add: pp_next_def)
  have "NextPPToken app p = Some (Inr (t, p'\<lparr>p_sub := rest\<rparr>))" if i: "pp_init p = Inr p'" for p'
  proof -
    from pp_init_sub[OF i] have "p_sub p' = t # rest" "p_macros p' = p_macros p"
      using assms(1) by (metis preprocessor.select_convs(4) preprocessor.surjective
          preprocessor.update_convs(1), metis preprocessor.select_convs(6)
          preprocessor.surjective preprocessor.update_convs(1))
    from n[OF this] i assms(2) show ?thesis
      by (subst NextPPToken_unfold) simp
  qed
  with n[of p app drain] n[of p "\<lambda>m toks pos ef. None" drain] assms(1) show ?thesis by simp
qed

theorem painted_blue_returned_unchanged_witness:
  "pp_next apply_object (\<lambda>q. None)
     \<lparr>p_src = None, p_path = ''main'', p_tokens = Map.empty,
      p_sub = [(tk_ident ''A'')\<lparr>ExpandedFrom := {''A'', ''B''}\<rparr>, tk_nl], p_visited = {},
      p_macros = [''A'' \<mapsto> \<lparr>macro_name = ''A'', macro_tokens = [tk_ident ''B''],
                              macro_paramsLen = - 1\<rparr>]\<rparr>
   = Some (Inr (Some ((tk_ident ''A'')\<lparr>ExpandedFrom := {''A'', ''B''}\<rparr>),
     \<lparr>p_src = None, p_path = ''main'', p_tokens = Map.empty,
      p_sub = [tk_nl], p_visited = {},
      p_macros = [''A'' \<mapsto> \<lparr>macro_name = ''A'', macro_tokens = [tk_ident ''B''],
                              macro_paramsLen = - 1\<rparr>]\<rparr>))"
  using painted_blue_returned_unchanged
    [of "\<lparr>p_src = None, p_path = ''main'', p_tokens = Map.empty,
      p_sub = [(tk_ident ''A'')\<lparr>ExpandedFrom := {''A'', ''B''}\<rparr>, tk_nl], p_visited = {},
      p_macros = [''A'' \<mapsto> \<lparr>macro_name = ''A'', macro_tokens = [tk_ident ''B''],
                              macro_paramsLen = - 1\<rparr>]\<rparr>"
        "(tk_ident ''A'')\<lparr>ExpandedFrom := {''A'', ''B''}\<rparr>" "[tk_nl]"
        "\<lparr>macro_name = ''A'', macro_tokens = [tk_ident ''B''], macro_paramsLen = - 1\<rparr>"
        apply_object "\<lambda>q. None"]
  by (simp add: tk_ident_def mk_pptoken_def)

subsection \<open>\<^verbatim>\<open>#include\<close>\<close>

text \<open>The reader stands at the head of a line and the next three tokens are \<^verbatim>\<open>#\<close>, the
  identifier \<^verbatim>\<open>include\<close> and a header name with the value \<open>path\<close>.\<close>

definition at_include :: "ppTokenBufReader \<Rightarrow> string \<Rightarrow> bool" where
  "at_include src path \<longleftrightarrow>
     buf_AtLineHead src = Inr True
     \<and> buf_pos src + 2 < length (buf_tokens src)
     \<and> ppType (buf_tokens src ! buf_pos src) = PPByte (CHR ''#'')
     \<and> ppType (buf_tokens src ! (buf_pos src + 1)) = Identifier
     \<and> Val (buf_tokens src ! (buf_pos src + 1)) = ''include''
     \<and> ppType (buf_tokens src ! (buf_pos src + 2)) = PPHeaderName
     \<and> Val (buf_tokens src ! (buf_pos src + 2)) = path"

lemma pp_next_at_include:
  assumes "p_sub p = []" and "p_src p = Some src" and "at_include src path"
  shows "pp_next app drain p =
     (if path \<in> p_visited p then Some (Inl (RecursiveInclude path))
      else
        Option.bind (drain (preprocessImpl path (p_tokens p) (insert path (p_visited p))))
          (\<lambda>res. case res of
             Inl err \<Rightarrow> Some (Inl err)
           | Inr (ts, q) \<Rightarrow>
               Some (Inr (None, p\<lparr>p_src := Some (src\<lparr>buf_pos := buf_pos src + 3\<rparr>), p_sub := ts,
                                   p_visited := p_visited q\<rparr>))))"
proof -
  from assms(3) have h: "buf_AtLineHead src = Inr True"
    and l: "buf_pos src + 2 < length (buf_tokens src)"
    and t0: "ppType (buf_tokens src ! buf_pos src) = PPByte (CHR ''#'')"
    and t1: "ppType (buf_tokens src ! (buf_pos src + 1)) = Identifier"
            "Val (buf_tokens src ! (buf_pos src + 1)) = ''include''"
    and t2: "ppType (buf_tokens src ! (buf_pos src + 2)) = PPHeaderName"
            "Val (buf_tokens src ! (buf_pos src + 2)) = path"
    by (simp_all add: at_include_def)
  let ?s1 = "src\<lparr>buf_pos := buf_pos src + 1\<rparr>"
  let ?s2 = "src\<lparr>buf_pos := buf_pos src + 2\<rparr>"
  let ?s3 = "src\<lparr>buf_pos := buf_pos src + 3\<rparr>"
  have n0: "buf_NextPPToken src = Inr (buf_tokens src ! buf_pos src, ?s1)"
    using l by (simp add: buf_NextPPToken_def)
  have n1: "buf_NextPPToken ?s1 = Inr (buf_tokens src ! (buf_pos src + 1), ?s2)"
    using l by (simp add: buf_NextPPToken_def)
  have n2: "nextExpected ?s2 [PPHeaderName] = Inr (buf_tokens src ! (buf_pos src + 2), ?s3)"
    using l t2 by (simp add: nextExpected_def buf_NextPPToken_def)
  have inc: "pp_include drain p ?s2 =
     (if path \<in> p_visited p then Some (Inl (RecursiveInclude path))
      else
        Option.bind (drain (preprocessImpl path (p_tokens p) (insert path (p_visited p))))
          (\<lambda>res. case res of
             Inl err \<Rightarrow> Some (Inl err)
           | Inr (ts, q) \<Rightarrow>
               Some (Inr (None, p\<lparr>p_src := Some ?s3, p_sub := ts, p_visited := p_visited q\<rparr>))))"
    using n2 t2 by (simp add: pp_include_def Let_def)
  have "pp_directive drain p ?s1 = pp_include drain p ?s2"
    using n1 t1 by (simp add: pp_directive_def)
  then have "pp_next app drain p = pp_include drain p ?s2"
    using assms(1,2) h n0 t0 by (simp add: pp_next_def)
  with inc show ?thesis by simp
qed

lemma NextPPToken_init:
  assumes "pp_init p = Inr p'"
  shows "NextPPToken app p = NextPPToken app p'"
  by (subst NextPPToken_unfold, subst (2) NextPPToken_unfold)
     (simp add: assms pp_init_idem[OF assms])

lemma pp_drain_init:
  assumes "pp_init p = Inr p'"
  shows "pp_drain app p ts = pp_drain app p' ts"
  by (subst pp_drain_unfold, subst (2) pp_drain_unfold) (simp add: NextPPToken_init[OF assms])

text \<open>The preprocessor of \<^verbatim>\<open>Preprocess\<close> while it reads the tokens before the first
  directive: the reader at position \<open>j\<close>, nothing pending, the visited set and the macro
  table as they were at the start.\<close>

definition reading_at ::
  "string \<Rightarrow> (string \<rightharpoonup> pptoken list) \<Rightarrow> pptoken list \<Rightarrow> nat \<Rightarrow> preprocessor" where
  "reading_at path tokens ts j =
     \<lparr>p_src = Some \<lparr>buf_tokens = ts, buf_pos = j\<rparr>, p_path = path, p_tokens = tokens,
      p_sub = [], p_visited = {path}, p_macros = Map.empty\<rparr>"

lemma pp_next_plain_token:
  assumes "j < length ts" and "ppType (ts ! j) \<noteq> PPByte (CHR ''#'')"
  shows "pp_next app drain (reading_at path tokens ts j) =
           Some (Inr (Some (ts ! j), reading_at path tokens ts (Suc j)))"
proof -
  have "\<exists>b. buf_AtLineHead \<lparr>buf_tokens = ts, buf_pos = j\<rparr> = Inr b"
    using assms(1) by (auto simp: buf_AtLineHead_def)
  then obtain b where "buf_AtLineHead \<lparr>buf_tokens = ts, buf_pos = j\<rparr> = Inr b" ..
  then show ?thesis
    using assms by (simp add: pp_next_def reading_at_def buf_NextPPToken_def)
qed

lemma NextPPToken_before_include:
  assumes inc: "at_include \<lparr>buf_tokens = ts, buf_pos = k\<rparr> path"
    and plain: "\<forall>i<k. ppType (ts ! i) \<noteq> PPByte (CHR ''#'') \<and> ppType (ts ! i) \<noteq> EOF"
  shows "j \<le> k \<Longrightarrow>
     NextPPToken app (reading_at path tokens ts j) = Some (Inl (RecursiveInclude path))
     \<or> (\<exists>t j'. NextPPToken app (reading_at path tokens ts j)
                  = Some (Inr (t, reading_at path tokens ts j'))
               \<and> j < j' \<and> j' \<le> k \<and> ppType t \<noteq> EOF)"
proof (induction "k - j" arbitrary: j)
  case 0
  then have jk: "j = k" by simp
  have i: "pp_init (reading_at path tokens ts k) = Inr (reading_at path tokens ts k)"
    by (simp add: pp_init_def reading_at_def)
  have "pp_next app (\<lambda>q. pp_drain app q []) (reading_at path tokens ts k) =
          Some (Inl (RecursiveInclude path))"
    using pp_next_at_include[of "reading_at path tokens ts k" "\<lparr>buf_tokens = ts, buf_pos = k\<rparr>" path]
      inc by (simp add: reading_at_def)
  then show ?case
    unfolding jk by (subst NextPPToken_unfold) (simp add: i)
next
  case (Suc n)
  then have jk: "j < k" and n: "n = k - Suc j" by simp_all
  from inc have "k + 2 < length ts" by (simp add: at_include_def)
  with jk have jl: "j < length ts" by simp
  from plain jk have pj: "ppType (ts ! j) \<noteq> PPByte (CHR ''#'')" "ppType (ts ! j) \<noteq> EOF"
    by simp_all
  have i: "pp_init (reading_at path tokens ts j) = Inr (reading_at path tokens ts j)"
    by (simp add: pp_init_def reading_at_def)
  have u: "NextPPToken app (reading_at path tokens ts j) =
      (if ppType (ts ! j) = PPByte newline then NextPPToken app (reading_at path tokens ts (Suc j))
       else Some (Inr (ts ! j, reading_at path tokens ts (Suc j))))"
    by (subst NextPPToken_unfold) (simp add: i pp_next_plain_token[OF jl pj(1)])
  show ?case
  proof (cases "ppType (ts ! j) = PPByte newline")
    case True
    from Suc.hyps(1)[OF n] jk
    have "NextPPToken app (reading_at path tokens ts (Suc j)) = Some (Inl (RecursiveInclude path))
     \<or> (\<exists>t j'. NextPPToken app (reading_at path tokens ts (Suc j))
                  = Some (Inr (t, reading_at path tokens ts j'))
               \<and> Suc j < j' \<and> j' \<le> k \<and> ppType t \<noteq> EOF)"
      by simp
    with u True show ?thesis by (auto intro: Suc_lessD)
  next
    case False
    with u pj jk show ?thesis by auto
  qed
qed

lemma pp_drain_before_include:
  assumes inc: "at_include \<lparr>buf_tokens = ts, buf_pos = k\<rparr> path"
    and plain: "\<forall>i<k. ppType (ts ! i) \<noteq> PPByte (CHR ''#'') \<and> ppType (ts ! i) \<noteq> EOF"
  shows "j \<le> k \<Longrightarrow>
     pp_drain app (reading_at path tokens ts j) acc = Some (Inl (RecursiveInclude path))"
proof (induction "k - j" arbitrary: j acc rule: less_induct)
  case less
  from NextPPToken_before_include[OF inc plain less.prems, of app tokens]
  show ?case
  proof (elim disjE exE conjE)
    assume "NextPPToken app (reading_at path tokens ts j) = Some (Inl (RecursiveInclude path))"
    then show ?thesis by (subst pp_drain_unfold) simp
  next
    fix t j'
    assume n: "NextPPToken app (reading_at path tokens ts j)
                 = Some (Inr (t, reading_at path tokens ts j'))"
      and j: "j < j'" "j' \<le> k" and t: "ppType t \<noteq> EOF"
    from j have "k - j' < k - j" by simp
    from less.hyps[OF this j(2)]
    have "pp_drain app (reading_at path tokens ts j') (acc @ [t])
            = Some (Inl (RecursiveInclude path))" .
    with n t show ?thesis by (subst pp_drain_unfold) simp
  qed
qed

text \<open>Claim C4. An \<^verbatim>\<open>#include\<close> directive whose path is in the visited set makes \<^verbatim>\<open>next\<close>,
  and with it \<^verbatim>\<open>NextPPToken\<close>, fail with the error \<^verbatim>\<open>recursive #include\<close> that names the
  path, whatever \<^verbatim>\<open>apply\<close> and the nested preprocessors would do. \<^verbatim>\<open>Preprocess\<close> starts its
  preprocessor with the visited set holding the starting path. So \<^verbatim>\<open>Preprocess\<close> returns
  that error, and does not loop, on a translation unit whose first directive is an
  \<^verbatim>\<open>#include\<close> of its own path: at position \<open>k\<close>, with no \<^verbatim>\<open>#\<close> token and no token of
  type \<^verbatim>\<open>EOF\<close> before it.\<close>

theorem recursive_include_fails:
  "(p_sub p = [] \<and> p_src p = Some src \<and> at_include src path \<and> path \<in> p_visited p \<longrightarrow>
      pp_next app drain p = Some (Inl (RecursiveInclude path))
      \<and> NextPPToken app p = Some (Inl (RecursiveInclude path)))
   \<and> p_visited (preprocessImpl start tokens {start}) = {start}
   \<and> (tokens start = Some ts \<and> at_include \<lparr>buf_tokens = ts, buf_pos = k\<rparr> start
       \<and> (\<forall>i<k. ppType (ts ! i) \<noteq> PPByte (CHR ''#'') \<and> ppType (ts ! i) \<noteq> EOF) \<longrightarrow>
      Preprocess app start tokens = Some (Inl (RecursiveInclude start)))"
proof (intro conjI impI)
  assume a: "p_sub p = [] \<and> p_src p = Some src \<and> at_include src path \<and> path \<in> p_visited p"
  then have n: "pp_next app d p = Some (Inl (RecursiveInclude path))" for d
    using pp_next_at_include[of p src path app d] by simp
  from n show "pp_next app drain p = Some (Inl (RecursiveInclude path))" .
  from a have "pp_init p = Inr p" by (simp add: pp_init_def)
  with n show "NextPPToken app p = Some (Inl (RecursiveInclude path))"
    by (subst NextPPToken_unfold) simp
next
  show "p_visited (preprocessImpl start tokens {start}) = {start}"
    by (simp add: preprocessImpl_def)
next
  assume a: "tokens start = Some ts \<and> at_include \<lparr>buf_tokens = ts, buf_pos = k\<rparr> start
       \<and> (\<forall>i<k. ppType (ts ! i) \<noteq> PPByte (CHR ''#'') \<and> ppType (ts ! i) \<noteq> EOF)"
  then have "pp_init (preprocessImpl start tokens {start}) = Inr (reading_at start tokens ts 0)"
    by (simp add: pp_init_def preprocessImpl_def reading_at_def)
  from pp_drain_init[OF this]
  have "pp_drain app (preprocessImpl start tokens {start}) [] =
          pp_drain app (reading_at start tokens ts 0) []" .
  also have "\<dots> = Some (Inl (RecursiveInclude start))"
    using pp_drain_before_include[of ts k start 0 app tokens "[]"] a by simp
  finally show "Preprocess app start tokens = Some (Inl (RecursiveInclude start))"
    by (simp add: Preprocess_def)
qed

theorem recursive_include_fails_witness:
  "[''self'' \<mapsto> [tk_hash, tk_ident ''include'', tk_header ''self'', tk_nl]] ''self''
      = Some [tk_hash, tk_ident ''include'', tk_header ''self'', tk_nl]
   \<and> at_include
        \<lparr>buf_tokens = [tk_hash, tk_ident ''include'', tk_header ''self'', tk_nl], buf_pos = 0\<rparr>
        ''self''
   \<and> ''self'' \<in> p_visited (reading_at ''self'' Map.empty
        [tk_hash, tk_ident ''include'', tk_header ''self'', tk_nl] 0)
   \<and> NextPPToken apply_object (reading_at ''self'' Map.empty
        [tk_hash, tk_ident ''include'', tk_header ''self'', tk_nl] 0)
      = Some (Inl (RecursiveInclude ''self''))
   \<and> Preprocess apply_object ''self''
        [''self'' \<mapsto> [tk_hash, tk_ident ''include'', tk_header ''self'', tk_nl]]
      = Some (Inl (RecursiveInclude ''self''))"
proof -
  have a: "at_include
        \<lparr>buf_tokens = [tk_hash, tk_ident ''include'', tk_header ''self'', tk_nl], buf_pos = 0\<rparr>
        ''self''"
    by (simp add: at_include_def buf_AtLineHead_def tk_hash_def tk_ident_def tk_header_def
        mk_pptoken_def)
  from recursive_include_fails
    [where tokens = "[''self'' \<mapsto> [tk_hash, tk_ident ''include'', tk_header ''self'', tk_nl]]"
       and start = "''self''" and ts = "[tk_hash, tk_ident ''include'', tk_header ''self'', tk_nl]"
       and k = 0 and app = apply_object
       and p = "reading_at ''self'' Map.empty
                  [tk_hash, tk_ident ''include'', tk_header ''self'', tk_nl] 0"
       and src = "\<lparr>buf_tokens = [tk_hash, tk_ident ''include'', tk_header ''self'', tk_nl],
                   buf_pos = 0\<rparr>"
       and path = "''self''"]
    a
  show ?thesis by (simp add: reading_at_def)
qed

text \<open>Claim C1, as the code has it. The preprocessor that the \<^verbatim>\<open>include\<close> case creates
  starts with an empty macro table of its own: no macro defined before the \<^verbatim>\<open>#include\<close>
  is in it. When the include completes, the including preprocessor has the macro table
  it had before (whatever the included unit defined or undefined), the drained tokens
  pending in \<^verbatim>\<open>sub\<close>, and no token to return; the macros of the including unit reach
  those tokens only there, when \<^verbatim>\<open>next\<close> rescans \<^verbatim>\<open>sub\<close>.\<close>

theorem include_macro_table_not_shared:
  assumes "p_sub p = []" and "p_src p = Some src" and "at_include src path"
    and "path \<notin> p_visited p"
  shows "pp_next app drain p =
           Option.bind (drain (preprocessImpl path (p_tokens p) (insert path (p_visited p))))
             (\<lambda>res. case res of
                Inl err \<Rightarrow> Some (Inl err)
              | Inr (ts, q) \<Rightarrow>
                  Some (Inr (None, p\<lparr>p_src := Some (src\<lparr>buf_pos := buf_pos src + 3\<rparr>),
                                      p_sub := ts, p_visited := p_visited q\<rparr>)))
         \<and> p_macros (preprocessImpl path (p_tokens p) (insert path (p_visited p))) = Map.empty
         \<and> (\<forall>x p'. pp_next app drain p = Some (Inr (x, p')) \<longrightarrow>
               p_macros p' = p_macros p \<and> x = None)"
proof -
  have n: "pp_next app drain p =
           Option.bind (drain (preprocessImpl path (p_tokens p) (insert path (p_visited p))))
             (\<lambda>res. case res of
                Inl err \<Rightarrow> Some (Inl err)
              | Inr (ts, q) \<Rightarrow>
                  Some (Inr (None, p\<lparr>p_src := Some (src\<lparr>buf_pos := buf_pos src + 3\<rparr>),
                                      p_sub := ts, p_visited := p_visited q\<rparr>)))"
    using pp_next_at_include[OF assms(1-3), of app drain] assms(4) by simp
  have e: "p_macros (preprocessImpl path (p_tokens p) (insert path (p_visited p))) = Map.empty"
    by (simp add: preprocessImpl_def)
  have "p_macros p' = p_macros p \<and> x = None" if r: "pp_next app drain p = Some (Inr (x, p'))" for x p'
  proof (cases "drain (preprocessImpl path (p_tokens p) (insert path (p_visited p)))")
    case None
    with r n show ?thesis by simp
  next
    case (Some res)
    show ?thesis
    proof (cases res)
      case (Inl err)
      with r n Some show ?thesis by simp
    next
      case (Inr b)
      with r n Some show ?thesis by (cases b) auto
    qed
  qed
  with n e show ?thesis by blast
qed

theorem include_macro_table_not_shared_witness:
  "at_include
      \<lparr>buf_tokens = [tk_hash, tk_ident ''include'', tk_header ''inc'', tk_nl, tk_ident ''X'', tk_nl],
       buf_pos = 0\<rparr> ''inc''
   \<and> ''inc'' \<notin> p_visited (reading_at ''main''
        [''inc'' \<mapsto> [tk_hash, tk_ident ''define'', tk_ident ''X'', tk_ident ''Y'', tk_nl]]
        [tk_hash, tk_ident ''include'', tk_header ''inc'', tk_nl, tk_ident ''X'', tk_nl] 0)
   \<and> (\<exists>p'.
        pp_next apply_object (\<lambda>q. pp_drain apply_object q [])
          (reading_at ''main''
             [''inc'' \<mapsto> [tk_hash, tk_ident ''define'', tk_ident ''X'', tk_ident ''Y'', tk_nl]]
             [tk_hash, tk_ident ''include'', tk_header ''inc'', tk_nl, tk_ident ''X'', tk_nl] 0)
          = Some (Inr (None, p'))
        \<and> p_macros p' = Map.empty \<and> p_sub p' = [])"
proof -
  let ?toks = "[''inc'' \<mapsto> [tk_hash, tk_ident ''define'', tk_ident ''X'', tk_ident ''Y'', tk_nl]]"
  let ?ts = "[tk_hash, tk_ident ''include'', tk_header ''inc'', tk_nl, tk_ident ''X'', tk_nl]"
  let ?p = "reading_at ''main'' ?toks ?ts 0"
  have a: "at_include \<lparr>buf_tokens = ?ts, buf_pos = 0\<rparr> ''inc''"
    by (simp add: at_include_def buf_AtLineHead_def tk_hash_def tk_ident_def tk_header_def
        mk_pptoken_def)
  have v: "''inc'' \<notin> p_visited ?p" by (simp add: reading_at_def)
  have "case pp_drain apply_object (preprocessImpl ''inc'' ?toks {''inc'', ''main''}) [] of
          Some (Inr (ts, q)) \<Rightarrow> ts = []
        | _ \<Rightarrow> False"
    by code_simp
  then obtain q where d:
    "pp_drain apply_object (preprocessImpl ''inc'' ?toks {''inc'', ''main''}) [] = Some (Inr ([], q))"
    by (auto split: option.splits sum.splits)
  have s: "p_sub ?p = []" "p_src ?p = Some \<lparr>buf_tokens = ?ts, buf_pos = 0\<rparr>"
    by (simp_all add: reading_at_def)
  have q0: "preprocessImpl ''inc'' (p_tokens ?p) (insert ''inc'' (p_visited ?p))
              = preprocessImpl ''inc'' ?toks {''inc'', ''main''}"
    by (simp add: reading_at_def)
  note th = include_macro_table_not_shared
    [where p = ?p and src = "\<lparr>buf_tokens = ?ts, buf_pos = 0\<rparr>"
       and path = "''inc''" and app = apply_object
       and drain = "\<lambda>q. pp_drain apply_object q []", OF s a v, THEN conjunct1]
  have "\<exists>p'. pp_next apply_object (\<lambda>q. pp_drain apply_object q []) ?p = Some (Inr (None, p'))
          \<and> p_macros p' = Map.empty \<and> p_sub p' = []"
    unfolding th q0 d by (simp add: reading_at_def)
  with a v show ?thesis by blast
qed

text \<open>Claim C1 as stated fails: a \<^verbatim>\<open>#define\<close> of the included unit is not visible after
  the include. The unit \<^verbatim>\<open>main\<close> includes \<^verbatim>\<open>inc\<close>, which defines \<^verbatim>\<open>X\<close> as \<^verbatim>\<open>Y\<close>, and then
  uses \<^verbatim>\<open>X\<close>: the result of \<^verbatim>\<open>Preprocess\<close> is the identifier \<^verbatim>\<open>X\<close>, not expanded.\<close>

theorem define_in_include_not_visible:
  "Preprocess apply_object ''main''
     [''main'' \<mapsto> [tk_hash, tk_ident ''include'', tk_header ''inc'', tk_nl, tk_ident ''X'', tk_nl],
      ''inc'' \<mapsto> [tk_hash, tk_ident ''define'', tk_ident ''X'', tk_ident ''Y'', tk_nl]]
   = Some (Inr [tk_ident ''X''])"
  by code_simp

end
